theory Spec2Isabelle
  imports Complex_Main
begin

section \<open>The car-park collector: data model\<close>

text \<open>
  The collector (\<^verbatim>\<open>parking_collector.py\<close>) polls an HTTP API once per facility,
  retries transient failures with exponential backoff, writes each reading into one
  SQLite table and supervises the polling cycles with a consecutive-failure counter.

  The embedding passes the state explicitly. Everything the program does to the outside
  world is appended to a trace of events, and everything the outside world decides (the
  answer to an HTTP request, an operator interrupt during a blocking call, a storage
  fault, the wall clock, the conversion of a value to the type of its column) is read
  from an environment; the first four are indexed by the logical time, which is the
  number of events so far. Logging is left out of the model, except where building
  a log message can raise.
\<close>

subsection \<open>JSON values and the Python operations the code applies to them\<close>

text \<open>
  What \<^verbatim>\<open>response.json()\<close> returns. A dict is an association list that is read
  with \<^const>\<open>map_of\<close>; Python's \<^verbatim>\<open>None\<close> is \<open>JNull\<close>. Numbers are Python's
  unbounded integers; non-integral numbers are not modelled.
\<close>

datatype json =
    JNull
  | JBool bool
  | JInt int
  | JStr string
  | JArr "json list"
  | JObj "(string \<times> json) list"

text \<open>
  The exceptions that can leave a function of the program. \<open>IntegrityError\<close> carries the
  constraint that SQLite reports as violated; \<open>InterfaceError\<close> is the error of binding a
  parameter of an unsupported type.
\<close>

datatype constraint = NotNull | Unique

datatype exn =
    KeyboardInterrupt
  | AttributeError
  | TypeError
  | KeyError
  | IndexError
  | OverflowError
  | InterfaceError
  | OperationalError
  | IntegrityError constraint

text \<open>Sequencing of two computations the first of which may raise.\<close>

definition seq :: "exn + 'a \<Rightarrow> ('a \<Rightarrow> exn + 'b) \<Rightarrow> exn + 'b" where
  "seq m k = (case m of Inl x \<Rightarrow> Inl x | Inr v \<Rightarrow> k v)"

text \<open>\<^verbatim>\<open>sub in s\<close> on two strings: \<open>sub\<close> occurs in \<open>s\<close> as a contiguous piece.\<close>

fun py_substr :: "string \<Rightarrow> string \<Rightarrow> bool" where
  "py_substr sub [] = (sub = [])"
| "py_substr sub (c # cs) = (take (length sub) (c # cs) = sub \<or> py_substr sub cs)"

text \<open>
  \<^verbatim>\<open>key in x\<close> for a string \<open>key\<close>: a key of a dict, an element of a list, a piece
  of a string; a \<^verbatim>\<open>TypeError\<close> on a number, a boolean or \<^verbatim>\<open>None\<close>.
\<close>

definition py_in :: "string \<Rightarrow> json \<Rightarrow> exn + bool" where
  "py_in key x =
     (case x of
        JObj d \<Rightarrow> Inr (map_of d key \<noteq> None)
      | JArr xs \<Rightarrow> Inr (List.member xs (JStr key))
      | JStr s \<Rightarrow> Inr (py_substr key s)
      | JNull \<Rightarrow> Inl TypeError
      | JBool b \<Rightarrow> Inl TypeError
      | JInt n \<Rightarrow> Inl TypeError)"

text \<open>\<^verbatim>\<open>x[key]\<close> for a string \<open>key\<close>: only a dict can be indexed by a string.\<close>

definition py_getitem :: "json \<Rightarrow> string \<Rightarrow> exn + json" where
  "py_getitem x key =
     (case x of
        JObj d \<Rightarrow> (case map_of d key of None \<Rightarrow> Inl KeyError | Some v \<Rightarrow> Inr v)
      | JArr xs \<Rightarrow> Inl TypeError
      | JStr s \<Rightarrow> Inl TypeError
      | JNull \<Rightarrow> Inl TypeError
      | JBool b \<Rightarrow> Inl TypeError
      | JInt n \<Rightarrow> Inl TypeError)"

text \<open>\<^verbatim>\<open>x.get(key, default)\<close>: only a dict has the method \<^verbatim>\<open>get\<close>.\<close>

definition py_get :: "json \<Rightarrow> string \<Rightarrow> json \<Rightarrow> exn + json" where
  "py_get x key dflt =
     (case x of
        JObj d \<Rightarrow> Inr (case map_of d key of None \<Rightarrow> dflt | Some v \<Rightarrow> v)
      | JArr xs \<Rightarrow> Inl AttributeError
      | JStr s \<Rightarrow> Inl AttributeError
      | JNull \<Rightarrow> Inl AttributeError
      | JBool b \<Rightarrow> Inl AttributeError
      | JInt n \<Rightarrow> Inl AttributeError)"

text \<open>The truth value of \<^verbatim>\<open>if data:\<close>.\<close>

definition truthy :: "json \<Rightarrow> bool" where
  "truthy x =
     (case x of
        JNull \<Rightarrow> False
      | JBool b \<Rightarrow> b
      | JInt n \<Rightarrow> n \<noteq> 0
      | JStr s \<Rightarrow> s \<noteq> []
      | JArr xs \<Rightarrow> xs \<noteq> []
      | JObj d \<Rightarrow> d \<noteq> [])"

subsection \<open>The outside world\<close>

text \<open>
  The outcome of \<^verbatim>\<open>requests.get\<close>: a response with its status code and its body
  (which parses as JSON or does not), a timeout, or another transport error.
\<close>

datatype body = NotJson | Json json

datatype http_outcome = Response int body | Timeout | RequestException

text \<open>
  The events of a run: an HTTP request for a facility, a completed sleep of so many
  seconds, a blocking call cut short by the operator's interrupt, the opening of the
  database connection and the execution of the insert statement.
\<close>

datatype event = is_Get: Get int | is_Sleep: Sleep rat | Interrupted | Connect | Execute

type_synonym trace = "event list"

text \<open>
  The values of SQLite: \<^verbatim>\<open>NULL\<close>, an integer of 64 bits, a floating-point number and
  a text. The model does not look into a floating-point number. A column of the table
  has the affinity \<^verbatim>\<open>INTEGER\<close> or \<^verbatim>\<open>TEXT\<close>, by its declared type, and SQLite
  converts a value to the affinity of its column before it checks the constraints and
  stores the value.
\<close>

typedecl ieee_double

datatype sqlval = SNull | SInt int | SReal ieee_double | SText string

datatype affinity = INTEGER | TEXT

text \<open>
  The environment. \<open>API_KEY\<close> is what \<^verbatim>\<open>os.getenv\<close> returned and \<open>FACILITIES\<close> the
  configured list; the next four fields answer, at each logical time, what a request returns,
  whether the operator interrupts the blocking call made then, whether the storage fails
  then, and what the clock reads; \<open>affinity\<close> is the conversion that SQLite applies to
  a value bound for a column of the given affinity.
\<close>

record env =
  API_KEY :: "string option"
  FACILITIES :: "int list"
  http :: "nat \<Rightarrow> int \<Rightarrow> http_outcome"
  sigint :: "nat \<Rightarrow> bool"
  db_fault :: "nat \<Rightarrow> bool"
  now :: "nat \<Rightarrow> string"
  affinity :: "affinity \<Rightarrow> sqlval \<Rightarrow> sqlval"

subsection \<open>Configuration constants\<close>

text \<open>
  The list that the module assigns to \<^verbatim>\<open>FACILITIES\<close>. The functions read the list from
  the environment, so that a statement can speak about every list.
\<close>

definition deployed_FACILITIES :: "int list" where
  "deployed_FACILITIES = [29, 30, 31, 32]"

definition POLL_INTERVAL_SECONDS :: rat where
  "POLL_INTERVAL_SECONDS = 600"

definition MAX_RETRIES :: nat where
  "MAX_RETRIES = 5"

definition RATE_LIMIT_DELAY :: rat where
  "RATE_LIMIT_DELAY = 1 / 2"

definition MAX_CONSECUTIVE_FAILURES :: nat where
  "MAX_CONSECUTIVE_FAILURES = 3"

definition RETRYABLE_STATUS_CODES :: "int list" where
  "RETRYABLE_STATUS_CODES = [500, 503]"

definition FATAL_STATUS_CODES :: "int list" where
  "FATAL_STATUS_CODES = [401, 403, 404]"

text \<open>\<^verbatim>\<open>if not API_KEY\<close>: the key is unset or empty.\<close>

definition key_missing :: "env \<Rightarrow> bool" where
  "key_missing e = (case API_KEY e of None \<Rightarrow> True | Some k \<Rightarrow> k = [])"

section \<open>The Fetcher\<close>

definition requests_get :: "env \<Rightarrow> int \<Rightarrow> trace \<Rightarrow> (exn + http_outcome) \<times> trace" where
  "requests_get e fid tr =
     (if sigint e (length tr) then (Inl KeyboardInterrupt, tr @ [Interrupted])
      else (Inr (http e (length tr) fid), tr @ [Get fid]))"

definition time_sleep :: "env \<Rightarrow> rat \<Rightarrow> trace \<Rightarrow> (exn + unit) \<times> trace" where
  "time_sleep e seconds tr =
     (if sigint e (length tr) then (Inl KeyboardInterrupt, tr @ [Interrupted])
      else (Inr (), tr @ [Sleep seconds]))"

text \<open>
  Lines 101 to 106: the check of a parsed body for the error structure. The message of
  the error log is built with \<^verbatim>\<open>data['ErrorDetails'].get('Message', 'Unknown error')\<close>
  before anything is returned.
\<close>

definition check_error_details :: "json \<Rightarrow> exn + json option" where
  "check_error_details data =
     seq (py_in ''ErrorDetails'' data) (\<lambda>found.
       if found then
         seq (py_getitem data ''ErrorDetails'') (\<lambda>details.
         seq (py_get details ''Message'' (JStr ''Unknown error'')) (\<lambda>message.
         Inr None))
       else Inr (Some data))"

text \<open>
  \<^verbatim>\<open>fetch_parking_data(facility_id, retry_count)\<close>. The attempt counter is a natural
  number: the program starts it at 0 and only ever adds 1. A body that does not parse
  raises a decoding error that one of the handlers catches; a \<^verbatim>\<open>TypeError\<close> or an
  \<^verbatim>\<open>AttributeError\<close> of the error-structure check and the operator's interrupt are
  caught by none and leave the function.
\<close>

function fetch_parking_data ::
  "env \<Rightarrow> int \<Rightarrow> nat \<Rightarrow> trace \<Rightarrow> (exn + json option) \<times> trace" where
  "fetch_parking_data e fid retry_count tr =
     (if key_missing e then (Inr None, tr)
      else
        (case requests_get e fid tr of
           (Inl x, tr1) \<Rightarrow> (Inl x, tr1)
         | (Inr (Response status_code body), tr1) \<Rightarrow>
             if status_code = 200 then
               (case body of
                  NotJson \<Rightarrow> (Inr None, tr1)
                | Json data \<Rightarrow> (check_error_details data, tr1))
             else if status_code \<in> set FATAL_STATUS_CODES then (Inr None, tr1)
             else if status_code \<in> set RETRYABLE_STATUS_CODES \<or> status_code = 403 then
               (if retry_count < MAX_RETRIES then
                  (case time_sleep e (2 ^ retry_count) tr1 of
                     (Inl x, tr2) \<Rightarrow> (Inl x, tr2)
                   | (Inr u, tr2) \<Rightarrow> fetch_parking_data e fid (retry_count + 1) tr2)
                else (Inr None, tr1))
             else (Inr None, tr1)
         | (Inr Timeout, tr1) \<Rightarrow>
             if retry_count < MAX_RETRIES then
               (case time_sleep e (2 ^ retry_count) tr1 of
                  (Inl x, tr2) \<Rightarrow> (Inl x, tr2)
                | (Inr u, tr2) \<Rightarrow> fetch_parking_data e fid (retry_count + 1) tr2)
             else (Inr None, tr1)
         | (Inr RequestException, tr1) \<Rightarrow> (Inr None, tr1)))"
  by pat_completeness auto
termination
  by (relation "measure (\<lambda>(e, fid, retry_count, tr). MAX_RETRIES - retry_count)") auto

declare fetch_parking_data.simps [simp del]

section \<open>The Persister\<close>

text \<open>
  The table \<^verbatim>\<open>parking_data\<close> is the list of its rows, oldest first (the surrogate
  \<^verbatim>\<open>id\<close> of a row is its position). A row holds the values as they are
  stored, that is after the conversion of the column's affinity; the column
  \<^verbatim>\<open>raw_response\<close> holds the payload that \<^verbatim>\<open>json.dumps\<close> serialises.
  \<^verbatim>\<open>init_database\<close> creates the table if it does not exist and leaves its rows as
  they are.
\<close>

record row =
  col_facility_id :: sqlval
  col_facility_name :: sqlval
  col_message_date :: sqlval
  col_collected_at :: sqlval
  col_total_spots :: sqlval
  col_total_occupancy :: sqlval
  col_raw_response :: json

text \<open>The pair of the constraint \<^verbatim>\<open>UNIQUE(facility_id, message_date)\<close>.\<close>

definition row_pair :: "row \<Rightarrow> sqlval \<times> sqlval" where
  "row_pair r = (col_facility_id r, col_message_date r)"

text \<open>
  Binding one Python value to a statement parameter: \<^verbatim>\<open>None\<close>, integers (a boolean
  is the integer 0 or 1) and strings are supported, an integer outside 64 bits overflows,
  a list or a dict is refused.
\<close>

definition bind_param :: "json \<Rightarrow> exn + sqlval" where
  "bind_param v =
     (case v of
        JNull \<Rightarrow> Inr SNull
      | JBool b \<Rightarrow> Inr (SInt (if b then 1 else 0))
      | JInt n \<Rightarrow> if - (2 ^ 63) \<le> n \<and> n < 2 ^ 63 then Inr (SInt n) else Inl OverflowError
      | JStr s \<Rightarrow> Inr (SText s)
      | JArr xs \<Rightarrow> Inl InterfaceError
      | JObj d \<Rightarrow> Inl InterfaceError)"

text \<open>
  Lines 155 to 166 and the binding of the seven parameters, in the order of the statement:
  the values read from the payload, the collection time and the payload itself.
\<close>

definition insert_parameters :: "json \<Rightarrow> string \<Rightarrow> exn + row" where
  "insert_parameters data collected_at =
     seq (py_get data ''facility_id'' JNull) (\<lambda>facility_id.
     seq (py_get data ''facility_name'' (JStr [])) (\<lambda>facility_name.
     seq (py_get data ''MessageDate'' (JStr [])) (\<lambda>message_date.
     seq (py_get data ''spots'' JNull) (\<lambda>total_spots.
     seq (py_get data ''occupancy'' (JObj [])) (\<lambda>occupancy.
     seq (py_get occupancy ''total'' JNull) (\<lambda>total_occupancy.
     seq (bind_param facility_id) (\<lambda>p1.
     seq (bind_param facility_name) (\<lambda>p2.
     seq (bind_param message_date) (\<lambda>p3.
     seq (bind_param total_spots) (\<lambda>p5.
     seq (bind_param total_occupancy) (\<lambda>p6.
     Inr \<lparr>col_facility_id = p1, col_facility_name = p2, col_message_date = p3,
          col_collected_at = SText collected_at, col_total_spots = p5,
          col_total_occupancy = p6, col_raw_response = data\<rparr>)))))))))))"

text \<open>
  The row as the table stores it: every bound value converted to the affinity of its
  column, as \<^verbatim>\<open>init_database\<close> declares them.
\<close>

definition stored :: "env \<Rightarrow> row \<Rightarrow> row" where
  "stored e r =
     \<lparr>col_facility_id = affinity e INTEGER (col_facility_id r),
      col_facility_name = affinity e TEXT (col_facility_name r),
      col_message_date = affinity e TEXT (col_message_date r),
      col_collected_at = affinity e TEXT (col_collected_at r),
      col_total_spots = affinity e INTEGER (col_total_spots r),
      col_total_occupancy = affinity e INTEGER (col_total_occupancy r),
      col_raw_response = col_raw_response r\<rparr>"

text \<open>
  The insert statement against the schema of \<^verbatim>\<open>init_database\<close>, on the converted
  values: the columns declared \<^verbatim>\<open>NOT NULL\<close> that a parameter can leave empty, then the
  uniqueness constraint. Both violations are reported as \<^verbatim>\<open>sqlite3.IntegrityError\<close>.
\<close>

definition sqlite_insert ::
  "env \<Rightarrow> row \<Rightarrow> trace \<Rightarrow> row list \<Rightarrow> (exn + unit) \<times> trace \<times> row list" where
  "sqlite_insert e r tr rows =
     (let s = stored e r in
      if db_fault e (length tr) then (Inl OperationalError, tr @ [Execute], rows)
      else if col_facility_id s = SNull \<or> col_facility_name s = SNull \<or>
              col_message_date s = SNull
        then (Inl (IntegrityError NotNull), tr @ [Execute], rows)
      else if row_pair s \<in> set (map row_pair rows)
        then (Inl (IntegrityError Unique), tr @ [Execute], rows)
      else (Inr (), tr @ [Execute], rows @ [s]))"

text \<open>
  \<^verbatim>\<open>save_parking_data(data)\<close>: the handler \<^verbatim>\<open>except sqlite3.IntegrityError\<close> logs a
  warning and returns; any other exception leaves the function.
\<close>

definition save_parking_data ::
  "env \<Rightarrow> json \<Rightarrow> trace \<Rightarrow> row list \<Rightarrow> (exn + unit) \<times> trace \<times> row list" where
  "save_parking_data e data tr rows =
     (let tr1 = tr @ [Connect] in
      case insert_parameters data (now e (length tr1)) of
        Inl x \<Rightarrow> (Inl x, tr1, rows)
      | Inr r \<Rightarrow>
          (case sqlite_insert e r tr1 rows of
             (Inl (IntegrityError c), tr2, rows2) \<Rightarrow> (Inr (), tr2, rows2)
           | (Inl x, tr2, rows2) \<Rightarrow> (Inl x, tr2, rows2)
           | (Inr u, tr2, rows2) \<Rightarrow> (Inr (), tr2, rows2)))"

section \<open>The Poll Cycle Orchestrator\<close>

text \<open>Lines 196 to 198: \<^verbatim>\<open>if data:\<close> saves and counts, and is skipped otherwise.\<close>

definition save_if_data ::
  "env \<Rightarrow> json option \<Rightarrow> nat \<Rightarrow> trace \<Rightarrow> row list \<Rightarrow> (exn + nat) \<times> trace \<times> row list" where
  "save_if_data e data success_count tr rows =
     (case data of
        None \<Rightarrow> (Inr success_count, tr, rows)
      | Some d \<Rightarrow>
          if truthy d then
            (case save_parking_data e d tr rows of
               (Inl x, tr1, rows1) \<Rightarrow> (Inl x, tr1, rows1)
             | (Inr u, tr1, rows1) \<Rightarrow> (Inr (success_count + 1), tr1, rows1))
          else (Inr success_count, tr, rows))"

text \<open>
  Lines 201 and 202: the pacing sleep, unless the facility id equals the last element of
  the configured list (\<^verbatim>\<open>FACILITIES[-1]\<close>, an \<^verbatim>\<open>IndexError\<close> on an empty list).
\<close>

definition rate_limit :: "env \<Rightarrow> int \<Rightarrow> trace \<Rightarrow> (exn + unit) \<times> trace" where
  "rate_limit e fid tr =
     (case FACILITIES e of
        [] \<Rightarrow> (Inl IndexError, tr)
      | f # fs \<Rightarrow>
          if fid \<noteq> last (f # fs) then time_sleep e RATE_LIMIT_DELAY tr else (Inr (), tr))"

text \<open>The loop of lines 193 to 202 over the facilities still to be polled.\<close>

fun poll_loop ::
  "env \<Rightarrow> int list \<Rightarrow> nat \<Rightarrow> trace \<Rightarrow> row list \<Rightarrow> (exn + nat) \<times> trace \<times> row list" where
  "poll_loop e [] success_count tr rows = (Inr success_count, tr, rows)"
| "poll_loop e (fid # rest) success_count tr rows =
     (case fetch_parking_data e fid 0 tr of
        (Inl x, tr1) \<Rightarrow> (Inl x, tr1, rows)
      | (Inr data, tr1) \<Rightarrow>
          (case save_if_data e data success_count tr1 rows of
             (Inl x, tr2, rows2) \<Rightarrow> (Inl x, tr2, rows2)
           | (Inr success_count2, tr2, rows2) \<Rightarrow>
               (case rate_limit e fid tr2 of
                  (Inl x, tr3) \<Rightarrow> (Inl x, tr3, rows2)
                | (Inr u, tr3) \<Rightarrow> poll_loop e rest success_count2 tr3 rows2)))"

definition poll_all_facilities ::
  "env \<Rightarrow> trace \<Rightarrow> row list \<Rightarrow> (exn + bool) \<times> trace \<times> row list" where
  "poll_all_facilities e tr rows =
     (case poll_loop e (FACILITIES e) 0 tr rows of
        (Inl x, tr1, rows1) \<Rightarrow> (Inl x, tr1, rows1)
      | (Inr success_count, tr1, rows1) \<Rightarrow> (Inr (success_count > 0), tr1, rows1))"

section \<open>The Supervisor Loop\<close>

text \<open>How the process ends: \<^verbatim>\<open>sys.exit\<close> with a status, or an exception nobody caught.\<close>

datatype ending = Exit int | Uncaught exn

text \<open>
  The two handlers of the loop body (lines 243 to 256), entered with an exception raised
  inside the \<^verbatim>\<open>try\<close> block. Every exception of the model but the operator's interrupt
  is an \<^verbatim>\<open>Exception\<close>. The sleep of line 256 runs inside the handler, where no handler
  of the same \<^verbatim>\<open>try\<close> statement applies any more.
\<close>

definition handlers ::
  "env \<Rightarrow> exn \<Rightarrow> nat \<Rightarrow> trace \<Rightarrow> row list \<Rightarrow> (ending + nat) \<times> trace \<times> row list" where
  "handlers e x consecutive_failures tr rows =
     (if x = KeyboardInterrupt then (Inl (Exit 0), tr, rows)
      else if consecutive_failures + 1 \<ge> MAX_CONSECUTIVE_FAILURES
        then (Inl (Exit 1), tr, rows)
      else
        (case time_sleep e POLL_INTERVAL_SECONDS tr of
           (Inl y, tr1) \<Rightarrow> (Inl (Uncaught y), tr1, rows)
         | (Inr u, tr1) \<Rightarrow> (Inr (consecutive_failures + 1), tr1, rows)))"

text \<open>
  One pass through the body of \<^verbatim>\<open>while True\<close> (lines 224 to 256): the process ends
  (\<open>Inl\<close>) or the loop goes on with the new value of \<^verbatim>\<open>consecutive_failures\<close>.
\<close>

definition main_iteration ::
  "env \<Rightarrow> nat \<Rightarrow> trace \<Rightarrow> row list \<Rightarrow> (ending + nat) \<times> trace \<times> row list" where
  "main_iteration e consecutive_failures tr rows =
     (case poll_all_facilities e tr rows of
        (Inl x, tr1, rows1) \<Rightarrow> handlers e x consecutive_failures tr1 rows1
      | (Inr success, tr1, rows1) \<Rightarrow>
          if success then
            (case time_sleep e POLL_INTERVAL_SECONDS tr1 of
               (Inl x, tr2) \<Rightarrow> handlers e x 0 tr2 rows1
             | (Inr u, tr2) \<Rightarrow> (Inr 0, tr2, rows1))
          else if consecutive_failures + 1 \<ge> MAX_CONSECUTIVE_FAILURES
            then (Inl (Exit 1), tr1, rows1)
          else
            (case time_sleep e POLL_INTERVAL_SECONDS tr1 of
               (Inl x, tr2) \<Rightarrow> handlers e x (consecutive_failures + 1) tr2 rows1
             | (Inr u, tr2) \<Rightarrow> (Inr (consecutive_failures + 1), tr2, rows1)))"

text \<open>
  The loop runs for ever while cycles succeed, so it takes fuel, the number of cycles it
  may still start: \<open>None\<close> says that the process is still running when the fuel is spent.
\<close>

fun main_loop ::
  "nat \<Rightarrow> env \<Rightarrow> nat \<Rightarrow> trace \<Rightarrow> row list \<Rightarrow> (ending \<times> trace \<times> row list) option" where
  "main_loop 0 e consecutive_failures tr rows = None"
| "main_loop (Suc fuel) e consecutive_failures tr rows =
     (case main_iteration e consecutive_failures tr rows of
        (Inl fin, tr1, rows1) \<Rightarrow> Some (fin, tr1, rows1)
      | (Inr consecutive_failures1, tr1, rows1) \<Rightarrow>
          main_loop fuel e consecutive_failures1 tr1 rows1)"

definition main ::
  "nat \<Rightarrow> env \<Rightarrow> trace \<Rightarrow> row list \<Rightarrow> (ending \<times> trace \<times> row list) option" where
  "main fuel e tr rows =
     (if key_missing e then Some (Exit 1, tr, rows) else main_loop fuel e 0 tr rows)"

section \<open>Concrete environments\<close>

text \<open>
  The conversions of SQLite between integers and texts. A text is an integer literal if it
  is an optional sign and one or more decimal digits, with white space allowed before and
  after; a column of affinity \<^verbatim>\<open>INTEGER\<close> stores such a text as the integer, if that
  fits 64 bits. A column of affinity \<^verbatim>\<open>TEXT\<close> stores an integer as its decimal text.
\<close>

definition is_space :: "char \<Rightarrow> bool" where
  "is_space c = (c \<in> set [CHR '' '', CHR 0x09, CHR 0x0A, CHR 0x0B, CHR 0x0C, CHR 0x0D])"

definition digit_value :: "char \<Rightarrow> nat option" where
  "digit_value c =
     map_of [(CHR ''0'', 0), (CHR ''1'', 1), (CHR ''2'', 2), (CHR ''3'', 3), (CHR ''4'', 4),
             (CHR ''5'', 5), (CHR ''6'', 6), (CHR ''7'', 7), (CHR ''8'', 8), (CHR ''9'', 9)] c"

fun digits_value :: "nat \<Rightarrow> string \<Rightarrow> nat option" where
  "digits_value acc [] = Some acc"
| "digits_value acc (c # cs) =
     (case digit_value c of None \<Rightarrow> None | Some d \<Rightarrow> digits_value (10 * acc + d) cs)"

definition integer_literal :: "string \<Rightarrow> int option" where
  "integer_literal s =
     (let t = rev (dropWhile is_space (rev (dropWhile is_space s)));
          negative = (t \<noteq> [] \<and> hd t = CHR ''-'');
          ds = (if t \<noteq> [] \<and> (hd t = CHR ''-'' \<or> hd t = CHR ''+'') then tl t else t)
      in if ds = [] then None
         else map_option (\<lambda>n. if negative then - int n else int n) (digits_value 0 ds))"

function decimal_nat :: "nat \<Rightarrow> string" where
  "decimal_nat n =
     (if n < 10 then [''0123456789'' ! n]
      else decimal_nat (n div 10) @ [''0123456789'' ! (n mod 10)])"
  by pat_completeness auto
termination
  by (relation "measure (\<lambda>n. n)") auto

declare decimal_nat.simps [simp del]

definition decimal :: "int \<Rightarrow> string" where
  "decimal n = (if n < 0 then CHR ''-'' # decimal_nat (nat (- n)) else decimal_nat (nat n))"

text \<open>
  The instance of the conversion that the concrete environments use. It is SQLite's on
  \<^verbatim>\<open>NULL\<close>, on integers and on every text that is not a numeric literal. A text that
  is a numeric literal but no integer literal of 64 bits would be stored as a
  floating-point number, or as the integer it equals; this instance leaves it as it is.
\<close>

definition integer_text_affinity :: "affinity \<Rightarrow> sqlval \<Rightarrow> sqlval" where
  "integer_text_affinity a v =
     (case a of
        INTEGER \<Rightarrow>
          (case v of
             SText s \<Rightarrow>
               (case integer_literal s of
                  None \<Rightarrow> v
                | Some n \<Rightarrow> if - (2 ^ 63) \<le> n \<and> n < 2 ^ 63 then SInt n else v)
           | SNull \<Rightarrow> v
           | SInt n \<Rightarrow> v
           | SReal x \<Rightarrow> v)
      | TEXT \<Rightarrow>
          (case v of
             SInt n \<Rightarrow> SText (decimal n)
           | SNull \<Rightarrow> v
           | SReal x \<Rightarrow> v
           | SText s \<Rightarrow> v))"

text \<open>
  An environment in which the key is set, the operator never interrupts and the storage
  never fails; the server and the facility list are given.
\<close>

definition quiet_env :: "(nat \<Rightarrow> int \<Rightarrow> http_outcome) \<Rightarrow> int list \<Rightarrow> env" where
  "quiet_env server fs =
     \<lparr>API_KEY = Some ''key'', FACILITIES = fs, http = server, sigint = (\<lambda>t. False),
      db_fault = (\<lambda>t. False), now = (\<lambda>t. ''2024-05-01T08:00:00''),
      affinity = integer_text_affinity\<rparr>"

text \<open>A server that answers every request with the given status and an unparsable body.\<close>

definition status_server :: "int \<Rightarrow> nat \<Rightarrow> int \<Rightarrow> http_outcome" where
  "status_server code t fid = Response code NotJson"

text \<open>A server that answers every request with status 200 and the given JSON body.\<close>

definition json_server :: "json \<Rightarrow> nat \<Rightarrow> int \<Rightarrow> http_outcome" where
  "json_server data t fid = Response 200 (Json data)"

text \<open>A reading of a facility as the API documents it, and a server that answers with it.\<close>

definition reading :: "int \<Rightarrow> json" where
  "reading fid =
     JObj [(''facility_id'', JInt fid), (''facility_name'', JStr ''Park and Ride''),
           (''MessageDate'', JStr ''2024-05-01T07:55:00''), (''spots'', JInt 1000),
           (''occupancy'', JObj [(''total'', JInt 250)])]"

definition reading_server :: "nat \<Rightarrow> int \<Rightarrow> http_outcome" where
  "reading_server t fid = Response 200 (Json (reading fid))"

text \<open>A payload that lacks the facility id, and the parameters it is bound to.\<close>

definition reading_without_id :: json where
  "reading_without_id =
     JObj [(''facility_name'', JStr ''Park and Ride''),
           (''MessageDate'', JStr ''2024-05-01T07:55:00''), (''spots'', JInt 1000),
           (''occupancy'', JObj [(''total'', JInt 250)])]"

definition row_without_id :: row where
  "row_without_id =
     \<lparr>col_facility_id = SNull, col_facility_name = SText ''Park and Ride'',
      col_message_date = SText ''2024-05-01T07:55:00'',
      col_collected_at = SText ''2024-05-01T08:00:00'', col_total_spots = SInt 1000,
      col_total_occupancy = SInt 250, col_raw_response = reading_without_id\<rparr>"

text \<open>The row that \<open>reading\<close> becomes in the quiet environment.\<close>

definition reading_row :: "int \<Rightarrow> row" where
  "reading_row fid =
     \<lparr>col_facility_id = SInt fid, col_facility_name = SText ''Park and Ride'',
      col_message_date = SText ''2024-05-01T07:55:00'',
      col_collected_at = SText ''2024-05-01T08:00:00'', col_total_spots = SInt 1000,
      col_total_occupancy = SInt 250, col_raw_response = reading fid\<rparr>"

text \<open>
  The reading of facility 29 as a server might also send it: the facility id as the text
  \<^verbatim>\<open>"29"\<close>, or the message date as a number. The table stores the first under the
  facility id 29, an integer, and the message date of the second as a text.
\<close>

definition reading_id_as_text :: json where
  "reading_id_as_text =
     JObj [(''facility_id'', JStr ''29''), (''facility_name'', JStr ''Park and Ride''),
           (''MessageDate'', JStr ''2024-05-01T07:55:00''), (''spots'', JInt 1000),
           (''occupancy'', JObj [(''total'', JInt 250)])]"

definition reading_date_as_number :: json where
  "reading_date_as_number =
     JObj [(''facility_id'', JInt 29), (''facility_name'', JStr ''Park and Ride''),
           (''MessageDate'', JInt 1714550100), (''spots'', JInt 1000),
           (''occupancy'', JObj [(''total'', JInt 250)])]"

text \<open>
  The quiet environment with the answers of \<open>reading_server\<close>, but the storage fails
  when the first insert is executed (logical time 2) and the operator interrupts the
  blocking call that follows (logical time 3).
\<close>

definition fault_then_interrupt :: env where
  "fault_then_interrupt =
     (quiet_env reading_server deployed_FACILITIES)
       \<lparr>sigint := (\<lambda>t. t = 3), db_fault := (\<lambda>t. t = 2)\<rparr>"

section \<open>Vocabulary of the statements\<close>


text \<open>
  The pair under which the table stores a payload, if its parameters can be bound. A
  payload is storable if moreover none of the facility id, the facility name and the
  message date of its row is \<^verbatim>\<open>NULL\<close>. Neither depends on the collection time.
\<close>

definition stored_pair :: "env \<Rightarrow> json \<Rightarrow> (sqlval \<times> sqlval) option" where
  "stored_pair e data =
     (case insert_parameters data [] of
        Inl x \<Rightarrow> None
      | Inr r \<Rightarrow> Some (row_pair (stored e r)))"

definition storable :: "env \<Rightarrow> json \<Rightarrow> bool" where
  "storable e data =
     (case insert_parameters data [] of
        Inl x \<Rightarrow> False
      | Inr r \<Rightarrow>
          col_facility_id (stored e r) \<noteq> SNull \<and> col_facility_name (stored e r) \<noteq> SNull \<and>
          col_message_date (stored e r) \<noteq> SNull)"

text \<open>
  The payloads that a cycle hands to the Persister: pass by pass, the data that the fetch
  of the pass returns, if it is true for \<^verbatim>\<open>if data:\<close>. The state in which the next
  pass starts is the one that this pass of the loop leaves.
\<close>

fun handed_over :: "env \<Rightarrow> int list \<Rightarrow> nat \<Rightarrow> trace \<Rightarrow> row list \<Rightarrow> json list" where
  "handed_over e [] c tr rows = []"
| "handed_over e (fid # rest) c tr rows =
     (case fetch_parking_data e fid 0 tr of
        (Inr (Some d), tr1) \<Rightarrow> if truthy d then [d] else []
      | (Inr None, tr1) \<Rightarrow> []
      | (Inl x, tr1) \<Rightarrow> []) @
     (case poll_loop e [fid] c tr rows of
        (Inr c1, tr1, rows1) \<Rightarrow> handed_over e rest c1 tr1 rows1
      | (Inl x, tr1, rows1) \<Rightarrow> [])"

text \<open>
  The events a fetch for a facility can add to the trace: a request for that facility, an
  interrupted blocking call, and a backoff sleep of \<open>2 ^ k\<close> seconds for an attempt
  \<open>k\<close> below \<open>MAX_RETRIES\<close>.
\<close>

definition fetch_event :: "int \<Rightarrow> event \<Rightarrow> bool" where
  "fetch_event fid ev =
     (ev = Get fid \<or> ev = Interrupted \<or> (\<exists>k<MAX_RETRIES. ev = Sleep (2 ^ k)))"

text \<open>
  The view of a trace that shows the pacing of a cycle: the requests and the sleeps of
  \<open>RATE_LIMIT_DELAY\<close> seconds. What a cycle over a list of facilities is expected to show
  there, once the repeated requests of a retried fetch are taken as one: a request per
  facility, in the order of the list, and one pacing sleep after each but the last.
\<close>

definition pacing_view :: "event \<Rightarrow> bool" where
  "pacing_view ev = (is_Get ev \<or> ev = Sleep RATE_LIMIT_DELAY)"

fun paced :: "int list \<Rightarrow> event list" where
  "paced [] = []"
| "paced [fid] = [Get fid]"
| "paced (fid # next # rest) = Get fid # Sleep RATE_LIMIT_DELAY # paced (next # rest)"

section \<open>Properties of the Fetcher\<close>

subsection \<open>One attempt\<close>

lemma fetch_step:
  "(key_missing e \<and> fetch_parking_data e fid retry_count tr = (Inr None, tr)) \<or>
   (\<not> key_missing e \<and> sigint e (length tr) \<and>
      fetch_parking_data e fid retry_count tr = (Inl KeyboardInterrupt, tr @ [Interrupted])) \<or>
   (\<not> key_missing e \<and> \<not> sigint e (length tr) \<and>
      (\<forall>d. http e (length tr) fid \<noteq> Response 200 (Json d)) \<and>
      fetch_parking_data e fid retry_count tr = (Inr None, tr @ [Get fid])) \<or>
   (\<not> key_missing e \<and> \<not> sigint e (length tr) \<and>
      (\<exists>d. http e (length tr) fid = Response 200 (Json d) \<and>
        fetch_parking_data e fid retry_count tr = (check_error_details d, tr @ [Get fid]))) \<or>
   (\<not> key_missing e \<and> \<not> sigint e (length tr) \<and> sigint e (Suc (length tr)) \<and>
      retry_count < MAX_RETRIES \<and>
      fetch_parking_data e fid retry_count tr =
        (Inl KeyboardInterrupt, tr @ [Get fid, Interrupted])) \<or>
   (\<not> key_missing e \<and> \<not> sigint e (length tr) \<and> \<not> sigint e (Suc (length tr)) \<and>
      (\<forall>d. http e (length tr) fid \<noteq> Response 200 (Json d)) \<and>
      retry_count < MAX_RETRIES \<and>
      fetch_parking_data e fid retry_count tr =
        fetch_parking_data e fid (Suc retry_count) (tr @ [Get fid, Sleep (2 ^ retry_count)]))"
proof (cases "key_missing e")
  case True
  then show ?thesis by (subst fetch_parking_data.simps) simp
next
  case key: False
  show ?thesis
  proof (cases "sigint e (length tr)")
    case True
    with key show ?thesis
      by (subst (1 2 3 4 5 6) fetch_parking_data.simps) (simp add: requests_get_def)
  next
    case go: False
    have retry: ?thesis
      if "fetch_parking_data e fid retry_count tr =
           (if retry_count < MAX_RETRIES then
              (case time_sleep e (2 ^ retry_count) (tr @ [Get fid]) of
                 (Inl x, tr2) \<Rightarrow> (Inl x, tr2)
               | (Inr u, tr2) \<Rightarrow> fetch_parking_data e fid (retry_count + 1) tr2)
            else (Inr None, tr @ [Get fid]))"
        and "\<forall>d. http e (length tr) fid \<noteq> Response 200 (Json d)"
      using that key go
      by (cases "retry_count < MAX_RETRIES"; cases "sigint e (Suc (length tr))")
         (simp_all add: time_sleep_def)
    show ?thesis
    proof (cases "http e (length tr) fid")
      case (Response status_code body)
      consider "status_code = 200" | "status_code \<noteq> 200" "status_code \<in> set FATAL_STATUS_CODES"
        | "status_code \<noteq> 200" "status_code \<notin> set FATAL_STATUS_CODES"
          "status_code \<in> set RETRYABLE_STATUS_CODES \<or> status_code = 403"
        | "status_code \<noteq> 200" "status_code \<notin> set FATAL_STATUS_CODES"
          "\<not> (status_code \<in> set RETRYABLE_STATUS_CODES \<or> status_code = 403)"
        by blast
      then show ?thesis
      proof cases
        case 1
        show ?thesis
        proof (cases body)
          case NotJson
          with 1 key go Response
          have "fetch_parking_data e fid retry_count tr = (Inr None, tr @ [Get fid])"
            by (subst fetch_parking_data.simps) (simp add: requests_get_def)
          with 1 key go Response NotJson show ?thesis by simp
        next
          case (Json d)
          with 1 key go Response
          have "fetch_parking_data e fid retry_count tr = (check_error_details d, tr @ [Get fid])"
            by (subst fetch_parking_data.simps) (simp add: requests_get_def)
          with 1 key go Response Json show ?thesis by simp
        qed
      next
        case 2
        with key go Response
        have "fetch_parking_data e fid retry_count tr = (Inr None, tr @ [Get fid])"
          by (subst fetch_parking_data.simps) (simp add: requests_get_def)
        with 2 key go Response show ?thesis by simp
      next
        case 3
        with key go Response show ?thesis
          by (intro retry, subst fetch_parking_data.simps) (simp_all add: requests_get_def)
      next
        case 4
        with key go Response
        have "fetch_parking_data e fid retry_count tr = (Inr None, tr @ [Get fid])"
          by (subst fetch_parking_data.simps) (simp add: requests_get_def)
        with 4 key go Response show ?thesis by simp
      qed
    next
      case Timeout
      with key go show ?thesis
        by (intro retry, subst fetch_parking_data.simps) (simp_all add: requests_get_def)
    next
      case RequestException
      with key go have "fetch_parking_data e fid retry_count tr = (Inr None, tr @ [Get fid])"
        by (subst fetch_parking_data.simps) (simp add: requests_get_def)
      with key go RequestException show ?thesis by simp
    qed
  qed
qed

lemma fetch_cases_induct [case_names no_key interrupted no_data parsed sleep_interrupted retry]:
  assumes no_key: "\<And>rc tr. key_missing e \<Longrightarrow> P rc tr (Inr None, tr)"
    and interrupted: "\<And>rc tr. \<not> key_missing e \<Longrightarrow> sigint e (length tr) \<Longrightarrow>
          P rc tr (Inl KeyboardInterrupt, tr @ [Interrupted])"
    and no_data: "\<And>rc tr. \<not> key_missing e \<Longrightarrow> \<not> sigint e (length tr) \<Longrightarrow>
          \<forall>d. http e (length tr) fid \<noteq> Response 200 (Json d) \<Longrightarrow>
          P rc tr (Inr None, tr @ [Get fid])"
    and parsed: "\<And>rc tr d. \<not> key_missing e \<Longrightarrow> \<not> sigint e (length tr) \<Longrightarrow>
          http e (length tr) fid = Response 200 (Json d) \<Longrightarrow>
          P rc tr (check_error_details d, tr @ [Get fid])"
    and sleep_interrupted: "\<And>rc tr. \<not> key_missing e \<Longrightarrow> \<not> sigint e (length tr) \<Longrightarrow>
          sigint e (Suc (length tr)) \<Longrightarrow> rc < MAX_RETRIES \<Longrightarrow>
          P rc tr (Inl KeyboardInterrupt, tr @ [Get fid, Interrupted])"
    and retry: "\<And>rc tr res. \<not> key_missing e \<Longrightarrow> \<not> sigint e (length tr) \<Longrightarrow>
          \<not> sigint e (Suc (length tr)) \<Longrightarrow>
          \<forall>d. http e (length tr) fid \<noteq> Response 200 (Json d) \<Longrightarrow> rc < MAX_RETRIES \<Longrightarrow>
          P (Suc rc) (tr @ [Get fid, Sleep (2 ^ rc)]) res \<Longrightarrow> P rc tr res"
  shows "P retry_count tr (fetch_parking_data e fid retry_count tr)"
proof (induction "MAX_RETRIES - retry_count" arbitrary: retry_count tr)
  case 0
  then have "\<not> retry_count < MAX_RETRIES" by simp
  with fetch_step [of e fid retry_count tr] show ?case
    by (auto intro: no_key interrupted no_data parsed)
next
  case (Suc n)
  from Suc(2) have "n = MAX_RETRIES - Suc retry_count" by simp
  from Suc(1) [OF this]
  have IH: "P (Suc retry_count) t (fetch_parking_data e fid (Suc retry_count) t)" for t .
  from fetch_step [of e fid retry_count tr] show ?case
  proof (elim disjE exE conjE)
    assume "\<not> key_missing e" "\<not> sigint e (length tr)" "\<not> sigint e (Suc (length tr))"
      "\<forall>d. http e (length tr) fid \<noteq> Response 200 (Json d)" "retry_count < MAX_RETRIES"
      and eq: "fetch_parking_data e fid retry_count tr =
        fetch_parking_data e fid (Suc retry_count) (tr @ [Get fid, Sleep (2 ^ retry_count)])"
    then show ?thesis
      using IH [of "tr @ [Get fid, Sleep (2 ^ retry_count)]"] retry by simp
  qed (auto intro: no_key interrupted no_data parsed sleep_interrupted)
qed

lemma fetch_trace_bounds:
  "length (filter is_Get (snd (fetch_parking_data e fid retry_count tr)))
     \<le> length (filter is_Get tr) + (MAX_RETRIES - retry_count) + 1 \<and>
   length (filter is_Sleep (snd (fetch_parking_data e fid retry_count tr)))
     \<le> length (filter is_Sleep tr) + (MAX_RETRIES - retry_count)"
proof (induction retry_count tr rule: fetch_cases_induct [of e _ fid])
  case (sleep_interrupted rc tr)
  then show ?case by simp arith
next
  case (retry rc tr res)
  then show ?case by simp arith
qed simp_all

text \<open>The events of a fetch, and what it can raise.\<close>

lemma fetch_event_simps [simp]:
  "fetch_event fid (Get fid)" "fetch_event fid Interrupted"
  "k < MAX_RETRIES \<Longrightarrow> fetch_event fid (Sleep (2 ^ k))"
  by (auto simp: fetch_event_def)

lemma fetch_events:
  "\<exists>evs. snd (fetch_parking_data e fid retry_count tr) = tr @ evs \<and>
         list_all (fetch_event fid) evs \<and>
         (fst (fetch_parking_data e fid retry_count tr) \<noteq> Inl KeyboardInterrupt \<longrightarrow>
            \<not> key_missing e \<longrightarrow> Get fid \<in> set evs \<and> Interrupted \<notin> set evs)"
proof (induction retry_count tr rule: fetch_cases_induct [of e _ fid])
  case (retry rc tr res)
  then obtain evs where evs: "snd res = (tr @ [Get fid, Sleep (2 ^ rc)]) @ evs"
    "list_all (fetch_event fid) evs"
    "fst res \<noteq> Inl KeyboardInterrupt \<longrightarrow> \<not> key_missing e \<longrightarrow>
       Get fid \<in> set evs \<and> Interrupted \<notin> set evs" by blast
  with retry(5) show ?case
    by (intro exI [of _ "[Get fid, Sleep (2 ^ rc)] @ evs"]) simp
qed simp_all

lemma fetch_raises:
  "fst (fetch_parking_data e fid retry_count tr) = Inl x \<Longrightarrow>
     x = KeyboardInterrupt \<or> x = TypeError \<or> x = AttributeError"
proof (induction retry_count tr rule: fetch_cases_induct [of e _ fid])
  case (parsed rc tr d)
  then show ?case
    by (cases d)
       (auto simp: check_error_details_def seq_def py_in_def py_getitem_def py_get_def
          split: if_splits option.splits json.splits)
qed simp_all

lemma fetch_same_world:
  assumes "API_KEY e' = API_KEY e" "http e' = http e" "sigint e' = sigint e"
  shows "fetch_parking_data e' fid retry_count tr = fetch_parking_data e fid retry_count tr"
proof -
  have same: "key_missing e' = key_missing e" "requests_get e' = requests_get e"
    "time_sleep e' = time_sleep e"
    using assms by (simp_all add: key_missing_def requests_get_def time_sleep_def fun_eq_iff)
  show ?thesis
  proof (induction "MAX_RETRIES - retry_count" arbitrary: retry_count tr)
    case 0
    then have stop: "\<not> retry_count < MAX_RETRIES" by simp
    show ?case
      apply (subst fetch_parking_data.simps [of e'])
      apply (subst fetch_parking_data.simps [of e])
      apply (unfold same)
      apply (simp add: stop split: prod.split sum.split http_outcome.split)
      done
  next
    case (Suc n)
    from Suc(2) have "n = MAX_RETRIES - (retry_count + 1)" by simp
    from Suc(1) [OF this]
    have IH: "fetch_parking_data e' fid (retry_count + 1) t =
              fetch_parking_data e fid (retry_count + 1) t" for t .
    show ?case
      apply (subst fetch_parking_data.simps [of e'])
      apply (subst fetch_parking_data.simps [of e])
      apply (unfold same IH)
      apply (rule refl)
      done
  qed
qed

subsection \<open>Retry with exponential backoff\<close>

lemma fetch_retry_step:
  assumes "\<not> key_missing e" "\<not> sigint e (length tr)" "\<not> sigint e (Suc (length tr))"
    and "http e (length tr) fid = Response st b" "st = 500 \<or> st = 503"
    and "retry_count < MAX_RETRIES"
  shows "fetch_parking_data e fid retry_count tr =
         fetch_parking_data e fid (Suc retry_count) (tr @ [Get fid, Sleep (2 ^ retry_count)])"
  using assms
  by (subst fetch_parking_data.simps)
     (auto simp: requests_get_def time_sleep_def FATAL_STATUS_CODES_def RETRYABLE_STATUS_CODES_def)

lemma fetch_exhausted:
  assumes "\<not> key_missing e" "\<not> sigint e (length tr)"
    and "http e (length tr) fid = Response st b" "st = 500 \<or> st = 503"
    and "\<not> retry_count < MAX_RETRIES"
  shows "fetch_parking_data e fid retry_count tr = (Inr None, tr @ [Get fid])"
  using assms
  by (subst fetch_parking_data.simps)
     (auto simp: requests_get_def time_sleep_def FATAL_STATUS_CODES_def RETRYABLE_STATUS_CODES_def)

text \<open>
  Claim C1. With the key set and no operator interrupt, a fetch whose every request is
  answered with status 500 or 503 makes six requests with five sleeps of 1, 2, 4, 8 and
  16 seconds between them, in this order, and then returns no data.
\<close>

theorem fetch_503_backoff:
  assumes key: "\<not> key_missing e"
    and quiet: "\<forall>t. \<not> sigint e t"
    and busy: "\<forall>t. \<exists>b. http e t fid = Response 500 b \<or> http e t fid = Response 503 b"
  shows "fetch_parking_data e fid 0 tr =
           (Inr None, tr @ [Get fid, Sleep 1, Get fid, Sleep 2, Get fid, Sleep 4,
                            Get fid, Sleep 8, Get fid, Sleep 16, Get fid])"
proof -
  have step: "fetch_parking_data e fid k t =
      fetch_parking_data e fid (Suc k) (t @ [Get fid, Sleep (2 ^ k)])" if "k < MAX_RETRIES" for k t
  proof -
    from busy obtain b st where "http e (length t) fid = Response st b" "st = 500 \<or> st = 503"
      by blast
    with key quiet that show ?thesis by (intro fetch_retry_step[where st=st and b=b]) auto
  qed
  have stop: "fetch_parking_data e fid 5 t = (Inr None, t @ [Get fid])" for t
  proof -
    from busy obtain b st where "http e (length t) fid = Response st b" "st = 500 \<or> st = 503"
      by blast
    with key quiet show ?thesis
      by (intro fetch_exhausted[where st=st and b=b]) (auto simp: MAX_RETRIES_def)
  qed
  let ?a = "tr @ [Get fid, Sleep 1]"
  let ?b = "tr @ [Get fid, Sleep 1, Get fid, Sleep 2]"
  let ?c = "tr @ [Get fid, Sleep 1, Get fid, Sleep 2, Get fid, Sleep 4]"
  let ?d = "tr @ [Get fid, Sleep 1, Get fid, Sleep 2, Get fid, Sleep 4, Get fid, Sleep 8]"
  let ?f = "tr @ [Get fid, Sleep 1, Get fid, Sleep 2, Get fid, Sleep 4, Get fid, Sleep 8,
                  Get fid, Sleep 16]"
  have "fetch_parking_data e fid 0 tr = fetch_parking_data e fid 1 ?a"
    using step [of 0 tr] by (simp add: MAX_RETRIES_def)
  also have "\<dots> = fetch_parking_data e fid 2 ?b"
    using step [of 1 ?a] by (simp add: MAX_RETRIES_def eval_nat_numeral)
  also have "\<dots> = fetch_parking_data e fid 3 ?c"
    using step [of 2 ?b] by (simp add: MAX_RETRIES_def eval_nat_numeral)
  also have "\<dots> = fetch_parking_data e fid 4 ?d"
    using step [of 3 ?c] by (simp add: MAX_RETRIES_def eval_nat_numeral)
  also have "\<dots> = fetch_parking_data e fid 5 ?f"
    using step [of 4 ?d] by (simp add: MAX_RETRIES_def eval_nat_numeral)
  also have "\<dots> = (Inr None, ?f @ [Get fid])"
    by (rule stop)
  finally show ?thesis by simp
qed

theorem fetch_503_backoff_witness:
  "fetch_parking_data (quiet_env (status_server 503) deployed_FACILITIES) 29 0 [] =
     (Inr None, [Get 29, Sleep 1, Get 29, Sleep 2, Get 29, Sleep 4,
                 Get 29, Sleep 8, Get 29, Sleep 16, Get 29])"
  using fetch_503_backoff [of "quiet_env (status_server 503) deployed_FACILITIES" 29 "[]"]
  by (simp add: quiet_env_def status_server_def key_missing_def)

subsection \<open>Status 403\<close>

text \<open>
  Claim C3. A fetch whose request is answered with status 403 returns no data after that
  one request, without a sleep, whatever the attempt counter: the test for the fatal
  codes comes first and 403 is one of them. So the alternative \<^verbatim>\<open>status_code == 403\<close>
  of the retry branch never decides: where that branch is reached, its condition is
  that of the retryable codes alone.
\<close>

theorem fetch_403_fatal:
  assumes "\<not> key_missing e" and "\<not> sigint e (length tr)"
    and "http e (length tr) fid = Response 403 b"
  shows "fetch_parking_data e fid retry_count tr = (Inr None, tr @ [Get fid]) \<and>
         (\<forall>status_code. status_code \<notin> set FATAL_STATUS_CODES \<longrightarrow>
            (status_code \<in> set RETRYABLE_STATUS_CODES \<or> status_code = 403) =
            (status_code \<in> set RETRYABLE_STATUS_CODES))"
  using assms
  by (subst fetch_parking_data.simps)
     (auto simp: requests_get_def FATAL_STATUS_CODES_def)

theorem fetch_403_fatal_witness:
  "fetch_parking_data (quiet_env (status_server 403) deployed_FACILITIES) 31 2 [Get 30] =
     (Inr None, [Get 30, Get 31])"
  using fetch_403_fatal
    [of "quiet_env (status_server 403) deployed_FACILITIES" "[Get 30]" 31 NotJson 2]
  by (simp add: quiet_env_def status_server_def key_missing_def)

subsection \<open>Termination and the size of a call tree\<close>

text \<open>
  Claim C10. The fetch is a total function: its recursion is accepted with the measure
  \<open>MAX_RETRIES - retry_count\<close>, which every recursive call decreases, in every environment
  (any sequence of statuses, timeouts, transport errors and bodies). A call with attempt
  counter \<open>retry_count\<close> adds at most \<open>MAX_RETRIES - retry_count + 1\<close> requests and at most
  \<open>MAX_RETRIES - retry_count\<close> sleeps to the trace; from 0 that is at most 6 requests and
  at most 5 sleeps.
\<close>

theorem fetch_bounded:
  "length (filter is_Get (snd (fetch_parking_data e fid retry_count tr)))
     \<le> length (filter is_Get tr) + (MAX_RETRIES - retry_count) + 1 \<and>
   length (filter is_Sleep (snd (fetch_parking_data e fid retry_count tr)))
     \<le> length (filter is_Sleep tr) + (MAX_RETRIES - retry_count) \<and>
   length (filter is_Get (snd (fetch_parking_data e fid 0 tr))) \<le> length (filter is_Get tr) + 6 \<and>
   length (filter is_Sleep (snd (fetch_parking_data e fid 0 tr))) \<le> length (filter is_Sleep tr) + 5"
  using fetch_trace_bounds [of e fid retry_count tr] fetch_trace_bounds [of e fid 0 tr]
  by (simp add: MAX_RETRIES_def)

subsection \<open>The error structure in a body of status 200\<close>

text \<open>
  Claim C8. The body \<^verbatim>\<open>{"ErrorDetails": "Forbidden"}\<close> of a response with status 200
  contains the field, and its value is a string: building the log message calls
  \<^verbatim>\<open>get\<close> on it, and the fetch raises \<^verbatim>\<open>AttributeError\<close> after its one request
  instead of returning no data.
\<close>

theorem fetch_error_details_raises:
  "fetch_parking_data
     (quiet_env (json_server (JObj [(''ErrorDetails'', JStr ''Forbidden'')])) deployed_FACILITIES)
     29 0 [] = (Inl AttributeError, [Get 29])"
  by (subst fetch_parking_data.simps)
     (simp add: quiet_env_def json_server_def key_missing_def requests_get_def
        check_error_details_def seq_def py_in_def py_getitem_def py_get_def)

text \<open>
  Where the value of the field is a dict, as the API documents it, the fetch returns no
  data after its one request, without a sleep, whatever the attempt counter.
\<close>

lemma fetch_error_details_dict:
  assumes "\<not> key_missing e" and "\<not> sigint e (length tr)"
    and "http e (length tr) fid = Response 200 (Json (JObj d))"
    and "map_of d ''ErrorDetails'' = Some (JObj details)"
  shows "fetch_parking_data e fid retry_count tr = (Inr None, tr @ [Get fid])"
  using assms
  by (subst fetch_parking_data.simps)
     (simp add: requests_get_def check_error_details_def seq_def py_in_def py_getitem_def
        py_get_def)

section \<open>Properties of the Persister\<close>

lemma save_unfold:
  "save_parking_data e data tr rows =
     (case insert_parameters data (now e (Suc (length tr))) of
        Inl x \<Rightarrow> (Inl x, tr @ [Connect], rows)
      | Inr r \<Rightarrow>
          if db_fault e (Suc (length tr))
            then (Inl OperationalError, tr @ [Connect, Execute], rows)
          else if col_facility_id (stored e r) = SNull \<or> col_facility_name (stored e r) = SNull \<or>
                  col_message_date (stored e r) = SNull \<or>
                  row_pair (stored e r) \<in> set (map row_pair rows)
            then (Inr (), tr @ [Connect, Execute], rows)
          else (Inr (), tr @ [Connect, Execute], rows @ [stored e r]))"
  by (simp add: save_parking_data_def sqlite_insert_def Let_def split: sum.split)

text \<open>The collection time is one column of the row and decides nothing else.\<close>

lemma seq_case:
  "(case seq m k of Inl x \<Rightarrow> Inl x | Inr r \<Rightarrow> Inr (g r)) =
   seq m (\<lambda>v. case k v of Inl x \<Rightarrow> Inl x | Inr r \<Rightarrow> Inr (g r))"
  by (simp add: seq_def split: sum.split)

lemma insert_parameters_clock:
  "insert_parameters data c =
     (case insert_parameters data c' of
        Inl x \<Rightarrow> Inl x
      | Inr r \<Rightarrow> Inr (r\<lparr>col_collected_at := SText c\<rparr>))"
  by (simp add: insert_parameters_def seq_case)

lemma stored_clock [simp]:
  "row_pair (stored e (r\<lparr>col_collected_at := v\<rparr>)) = row_pair (stored e r)"
  "col_facility_id (stored e (r\<lparr>col_collected_at := v\<rparr>)) = col_facility_id (stored e r)"
  "col_facility_name (stored e (r\<lparr>col_collected_at := v\<rparr>)) = col_facility_name (stored e r)"
  "col_message_date (stored e (r\<lparr>col_collected_at := v\<rparr>)) = col_message_date (stored e r)"
  by (simp_all add: stored_def row_pair_def)

lemma stored_now [simp]: "stored (e\<lparr>now := clk\<rparr>) r = stored e r"
  by (simp add: stored_def)

text \<open>The pair and the storability of a payload, read off the parameters of any insert.\<close>

lemma stored_pair_eq:
  "insert_parameters data c = Inr r \<Longrightarrow> stored_pair e data = Some (row_pair (stored e r))"
  by (subst (asm) insert_parameters_clock [of _ _ "[]"])
     (auto simp: stored_pair_def split: sum.splits)

lemma stored_pair_None:
  "insert_parameters data c = Inl x \<Longrightarrow> stored_pair e data = None"
  by (subst (asm) insert_parameters_clock [of _ _ "[]"])
     (auto simp: stored_pair_def split: sum.splits)

lemma storable_eq:
  "insert_parameters data c = Inr r \<Longrightarrow>
     storable e data =
       (col_facility_id (stored e r) \<noteq> SNull \<and> col_facility_name (stored e r) \<noteq> SNull \<and>
        col_message_date (stored e r) \<noteq> SNull)"
  by (subst (asm) insert_parameters_clock [of _ _ "[]"])
     (auto simp: storable_def split: sum.splits)

lemma storable_bound:
  "storable e data \<Longrightarrow> \<exists>r. insert_parameters data c = Inr r"
  by (subst insert_parameters_clock [of _ _ "[]"]) (auto simp: storable_def split: sum.splits)

lemma stored_pair_bound:
  "stored_pair e data = Some p \<Longrightarrow> \<exists>r. insert_parameters data c = Inr r"
  by (subst insert_parameters_clock [of _ _ "[]"]) (auto simp: stored_pair_def split: sum.splits)

text \<open>What a save does to the store, in terms of the pair of the payload.\<close>

lemma save_store:
  "snd (snd (save_parking_data e data tr rows)) = rows \<or>
   (\<exists>r p. snd (snd (save_parking_data e data tr rows)) = rows @ [r] \<and>
        row_pair r = p \<and> stored_pair e data = Some p \<and> storable e data \<and>
        p \<notin> set (map row_pair rows))"
proof (cases "insert_parameters data (now e (Suc (length tr)))")
  case (Inl x)
  then show ?thesis by (simp add: save_unfold)
next
  case (Inr r)
  from stored_pair_eq [OF Inr, of e] storable_eq [OF Inr, of e] Inr show ?thesis
    by (simp add: save_unfold)
qed

lemma save_rows:
  "snd (snd (save_parking_data e data tr rows)) = rows \<or>
   (\<exists>r. snd (snd (save_parking_data e data tr rows)) = rows @ [r] \<and>
        row_pair r \<notin> set (map row_pair rows))"
  using save_store [of e data tr rows] by auto

lemma save_distinct:
  "distinct (map row_pair rows) \<Longrightarrow>
     distinct (map row_pair (snd (snd (save_parking_data e data tr rows))))"
  using save_rows [of e data tr rows] by auto

lemma save_mono:
  "set (map row_pair rows) \<subseteq> set (map row_pair (snd (snd (save_parking_data e data tr rows))))"
  using save_rows [of e data tr rows] by auto

text \<open>A save that returns leaves the pair of a storable payload in the store.\<close>

lemma save_returns:
  assumes "save_parking_data e data tr rows = (Inr u, tr', rows')"
  shows "\<exists>p. stored_pair e data = Some p \<and>
           (storable e data \<longrightarrow> p \<in> set (map row_pair rows'))"
proof (cases "insert_parameters data (now e (Suc (length tr)))")
  case (Inl x)
  with assms show ?thesis by (simp add: save_unfold)
next
  case (Inr r)
  from stored_pair_eq [OF Inr, of e] storable_eq [OF Inr, of e] Inr assms show ?thesis
    by (auto simp: save_unfold split: if_splits)
qed

lemma save_replay:
  assumes "save_parking_data e data tr A = (res, tr', A')"
    and "set (map row_pair A') \<subseteq> set (map row_pair B)"
  shows "save_parking_data (e\<lparr>now := clk\<rparr>) data tr B = (res, tr', B)"
proof (cases "insert_parameters data (now e (Suc (length tr)))")
  case (Inl x)
  then have "insert_parameters data (clk (Suc (length tr))) = Inl x"
    by (subst insert_parameters_clock [of _ _ "now e (Suc (length tr))"]) simp
  with Inl assms show ?thesis by (simp add: save_unfold)
next
  case (Inr r)
  then have *: "insert_parameters data (clk (Suc (length tr))) =
      Inr (r\<lparr>col_collected_at := SText (clk (Suc (length tr)))\<rparr>)"
    by (subst insert_parameters_clock [of _ _ "now e (Suc (length tr))"]) simp
  from Inr assms show ?thesis
    by (auto simp: save_unfold * split: if_splits)
qed

text \<open>
  Claim C4. The payload that lacks \<^verbatim>\<open>facility_id\<close> is bound to a row whose facility id
  is \<^verbatim>\<open>NULL\<close>; the insert violates \<^verbatim>\<open>NOT NULL\<close>, not the uniqueness constraint (the
  table is empty), and raises \<^verbatim>\<open>IntegrityError\<close>; and \<^verbatim>\<open>save_parking_data\<close> returns
  to its caller without raising and without a row written: the failure is absorbed by
  the handler of the duplicates.
\<close>

theorem save_absorbs_not_null:
  "insert_parameters reading_without_id ''2024-05-01T08:00:00'' = Inr row_without_id \<and>
   sqlite_insert (quiet_env reading_server deployed_FACILITIES) row_without_id [Connect] [] =
     (Inl (IntegrityError NotNull), [Connect, Execute], []) \<and>
   save_parking_data (quiet_env reading_server deployed_FACILITIES) reading_without_id [] [] =
     (Inr (), [Connect, Execute], [])"
  by (simp add: save_parking_data_def sqlite_insert_def insert_parameters_def seq_def
      py_get_def bind_param_def reading_without_id_def row_without_id_def quiet_env_def
      stored_def integer_text_affinity_def)

section \<open>Properties of the Poll Cycle Orchestrator\<close>

subsection \<open>The store over a cycle\<close>

lemma save_if_data_mono:
  "set (map row_pair rows) \<subseteq>
     set (map row_pair (snd (snd (save_if_data e data c tr rows))))"
proof (cases data)
  case None
  then show ?thesis by (simp add: save_if_data_def)
next
  case (Some d)
  obtain r tr1 rows1 where s: "save_parking_data e d tr rows = (r, tr1, rows1)"
    by (metis prod_cases3)
  with save_mono [of rows e d tr] have "set (map row_pair rows) \<subseteq> set (map row_pair rows1)"
    by simp
  with Some s show ?thesis by (cases r) (auto simp: save_if_data_def)
qed

lemma save_if_data_replay:
  assumes "save_if_data e data c tr A = (res, tr', A')"
    and "set (map row_pair A') \<subseteq> set (map row_pair B)"
  shows "save_if_data (e\<lparr>now := clk\<rparr>) data c tr B = (res, tr', B)"
proof (cases "\<exists>d. data = Some d \<and> truthy d")
  case False
  with assms show ?thesis by (auto simp: save_if_data_def split: option.splits)
next
  case True
  then obtain d where d: "data = Some d" "truthy d" by blast
  obtain r tr1 rows1 where s: "save_parking_data e d tr A = (r, tr1, rows1)"
    by (metis prod_cases3)
  with assms(1) d have "rows1 = A'" "tr1 = tr'"
    by (cases r; simp add: save_if_data_def)+
  with s assms(2) have "save_parking_data (e\<lparr>now := clk\<rparr>) d tr B = (r, tr', B)"
    by (intro save_replay) auto
  with assms(1) d s show ?thesis by (cases r) (auto simp: save_if_data_def)
qed

lemma rate_limit_now [simp]: "rate_limit (e\<lparr>now := clk\<rparr>) = rate_limit e"
  by (simp add: rate_limit_def time_sleep_def fun_eq_iff split: list.split)

lemma fetch_now [simp]:
  "fetch_parking_data (e\<lparr>now := clk\<rparr>) fid retry_count tr =
   fetch_parking_data e fid retry_count tr"
  by (rule fetch_same_world) simp_all

lemma poll_loop_mono:
  "set (map row_pair rows) \<subseteq> set (map row_pair (snd (snd (poll_loop e fs c tr rows))))"
proof (induction fs arbitrary: c tr rows)
  case Nil
  show ?case by simp
next
  case (Cons fid rest)
  obtain r1 tr1 where f: "fetch_parking_data e fid 0 tr = (r1, tr1)"
    by (cases "fetch_parking_data e fid 0 tr")
  show ?case
  proof (cases r1)
    case (Inl x)
    with f show ?thesis by simp
  next
    case data: (Inr data)
    obtain r2 tr2 rows2 where s: "save_if_data e data c tr1 rows = (r2, tr2, rows2)"
      by (metis prod_cases3)
    with save_if_data_mono [of rows e data c tr1]
    have m: "set (map row_pair rows) \<subseteq> set (map row_pair rows2)" by simp
    show ?thesis
    proof (cases r2)
      case (Inl x)
      with f data s m show ?thesis by simp
    next
      case count: (Inr c2)
      obtain r3 tr3 where p: "rate_limit e fid tr2 = (r3, tr3)"
        by (cases "rate_limit e fid tr2")
      show ?thesis
      proof (cases r3)
        case (Inl x)
        with f data s count p m show ?thesis by simp
      next
        case (Inr u)
        with f data s count p m Cons.IH [of rows2 c2 tr3] show ?thesis by auto
      qed
    qed
  qed
qed

lemma poll_loop_replay:
  assumes "poll_loop e fs c tr A = (res, tr', A')"
    and "set (map row_pair A') \<subseteq> set (map row_pair B)"
  shows "poll_loop (e\<lparr>now := clk\<rparr>) fs c tr B = (res, tr', B)"
  using assms
proof (induction fs arbitrary: c tr A)
  case Nil
  then show ?case by simp
next
  case (Cons fid rest)
  obtain r1 tr1 where f: "fetch_parking_data e fid 0 tr = (r1, tr1)"
    by (cases "fetch_parking_data e fid 0 tr")
  show ?case
  proof (cases r1)
    case (Inl x)
    with f Cons.prems show ?thesis by simp
  next
    case data: (Inr data)
    obtain r2 tr2 A2 where s: "save_if_data e data c tr1 A = (r2, tr2, A2)"
      by (metis prod_cases3)
    show ?thesis
    proof (cases r2)
      case (Inl x)
      with f data s Cons.prems(1) have eqs: "res = Inl x" "tr2 = tr'" "A2 = A'"
        by simp_all
      with s Inl Cons.prems(2)
      have "save_if_data (e\<lparr>now := clk\<rparr>) data c tr1 B = (Inl x, tr', B)"
        using save_if_data_replay [of e data c tr1 A "Inl x" tr' A' B clk] by simp
      with f data eqs show ?thesis by simp
    next
      case count: (Inr c2)
      obtain r3 tr3 where p: "rate_limit e fid tr2 = (r3, tr3)"
        by (cases "rate_limit e fid tr2")
      show ?thesis
      proof (cases r3)
        case (Inl x)
        with f data s count p Cons.prems(1) have eqs: "res = Inl x" "tr3 = tr'" "A2 = A'"
          by simp_all
        with s count Cons.prems(2)
        have "save_if_data (e\<lparr>now := clk\<rparr>) data c tr1 B = (Inr c2, tr2, B)"
          using save_if_data_replay [of e data c tr1 A "Inr c2" tr2 A2 B clk] by simp
        with f data p Inl eqs show ?thesis by simp
      next
        case (Inr u)
        with f data s count p Cons.prems(1)
        have rest: "poll_loop e rest c2 tr3 A2 = (res, tr', A')" by simp
        with poll_loop_mono [of A2 e rest c2 tr3]
        have "set (map row_pair A2) \<subseteq> set (map row_pair A')" by simp
        with Cons.prems(2) have "set (map row_pair A2) \<subseteq> set (map row_pair B)"
          by blast
        with s count
        have "save_if_data (e\<lparr>now := clk\<rparr>) data c tr1 B = (Inr c2, tr2, B)"
          using save_if_data_replay [of e data c tr1 A "Inr c2" tr2 A2 B clk] by simp
        with f data p Inr Cons.IH [OF rest Cons.prems(2)] show ?thesis by simp
      qed
    qed
  qed
qed

lemma poll_all_replay:
  assumes "poll_all_facilities e tr A = (res, tr', A')"
  shows "poll_all_facilities (e\<lparr>now := clk\<rparr>) tr A' = (res, tr', A')"
proof -
  obtain r tr1 A1 where l: "poll_loop e (FACILITIES e) 0 tr A = (r, tr1, A1)"
    by (metis prod_cases3)
  with assms have "A1 = A'" by (cases r) (auto simp: poll_all_facilities_def)
  with l have "poll_loop (e\<lparr>now := clk\<rparr>) (FACILITIES e) 0 tr A' = (r, tr1, A')"
    by (intro poll_loop_replay) auto
  with assms l show ?thesis by (cases r) (auto simp: poll_all_facilities_def)
qed

subsection \<open>The uniqueness of the pair of facility and message time\<close>

text \<open>
  Claim C5. Whatever the payload and the environment, \<^verbatim>\<open>save_parking_data\<close> keeps the
  pairs of facility id and message date of the stored rows distinct. Two readings whose
  parameters can be extracted and bound and that the table stores under the same pair
  (the pair of the converted values), the first with a facility id, name and message
  date that are not \<^verbatim>\<open>NULL\<close>, saved one after the other while the storage does not
  fail, both return without raising; the second save writes nothing and the store holds
  exactly one row with the pair. And a poll cycle that is run again in the environment of
  the first run (the same answers at the same points of the cycle, any clock) over the
  store the first run left ends as the first did and leaves the store as it found it, so
  with the row count of one run.
\<close>

theorem pair_stays_unique:
  "(distinct (map row_pair rows) \<longrightarrow>
      distinct (map row_pair (snd (snd (save_parking_data e data tr rows))))) \<and>
   (distinct (map row_pair rows) \<and>
    insert_parameters d1 c1 = Inr r1 \<and> insert_parameters d2 c2 = Inr r2 \<and>
    row_pair (stored e r1) = row_pair (stored e r2) \<and>
    col_facility_id (stored e r1) \<noteq> SNull \<and> col_facility_name (stored e r1) \<noteq> SNull \<and>
    col_message_date (stored e r1) \<noteq> SNull \<and>
    \<not> db_fault e (length tr + 1) \<and> \<not> db_fault e (length tr + 3) \<longrightarrow>
      (\<exists>tr1 rows1.
         save_parking_data e d1 tr rows = (Inr (), tr1, rows1) \<and>
         save_parking_data e d2 tr1 rows1 = (Inr (), tr1 @ [Connect, Execute], rows1) \<and>
         length (filter (\<lambda>r. row_pair r = row_pair (stored e r1)) rows1) = 1)) \<and>
   (poll_all_facilities e tr rows = (res, tr', rows') \<longrightarrow>
      poll_all_facilities (e\<lparr>now := clk\<rparr>) tr rows' = (res, tr', rows') \<and>
      length (snd (snd (poll_all_facilities (e\<lparr>now := clk\<rparr>) tr rows'))) = length rows')"
proof (intro conjI impI)
  assume "distinct (map row_pair rows)"
  then show "distinct (map row_pair (snd (snd (save_parking_data e data tr rows))))"
    by (rule save_distinct)
next
  assume "poll_all_facilities e tr rows = (res, tr', rows')"
  then have *: "poll_all_facilities (e\<lparr>now := clk\<rparr>) tr rows' = (res, tr', rows')"
    by (rule poll_all_replay)
  then show "poll_all_facilities (e\<lparr>now := clk\<rparr>) tr rows' = (res, tr', rows')" .
  from * show "length (snd (snd (poll_all_facilities (e\<lparr>now := clk\<rparr>) tr rows'))) = length rows'"
    by simp
next
  assume a: "distinct (map row_pair rows) \<and>
    insert_parameters d1 c1 = Inr r1 \<and> insert_parameters d2 c2 = Inr r2 \<and>
    row_pair (stored e r1) = row_pair (stored e r2) \<and>
    col_facility_id (stored e r1) \<noteq> SNull \<and> col_facility_name (stored e r1) \<noteq> SNull \<and>
    col_message_date (stored e r1) \<noteq> SNull \<and>
    \<not> db_fault e (length tr + 1) \<and> \<not> db_fault e (length tr + 3)"
  let ?t1 = "now e (Suc (length tr))" and ?t2 = "now e (Suc (Suc (Suc (length tr))))"
  let ?r1 = "r1\<lparr>col_collected_at := SText ?t1\<rparr>" and ?r2 = "r2\<lparr>col_collected_at := SText ?t2\<rparr>"
  let ?p = "row_pair (stored e r1)"
  from a have p1: "insert_parameters d1 ?t1 = Inr ?r1"
    by (subst insert_parameters_clock [of _ _ c1]) simp
  from a have p2: "insert_parameters d2 ?t2 = Inr ?r2"
    by (subst insert_parameters_clock [of _ _ c2]) simp
  define rows1 where
    "rows1 = (if ?p \<in> set (map row_pair rows) then rows else rows @ [stored e ?r1])"
  have one: "save_parking_data e d1 tr rows = (Inr (), tr @ [Connect, Execute], rows1)"
    using a p1 by (simp add: save_unfold rows1_def)
  have present: "?p \<in> set (map row_pair rows1)"
    by (auto simp: rows1_def)
  from a have quiet: "\<not> db_fault e (Suc (Suc (Suc (length tr))))"
    by (simp add: eval_nat_numeral)
  from a present have "row_pair (stored e ?r2) \<in> set (map row_pair rows1)" by simp
  then have two: "save_parking_data e d2 (tr @ [Connect, Execute]) rows1 =
      (Inr (), (tr @ [Connect, Execute]) @ [Connect, Execute], rows1)"
    using p2 quiet by (simp add: save_unfold)
  have d1: "distinct (map row_pair rows1)"
    using a by (auto simp: rows1_def)
  from d1 present have "length (filter (\<lambda>r. row_pair r = ?p) rows1) = 1"
  proof (induction rows1)
    case Nil
    then show ?case by simp
  next
    case (Cons r rs)
    then show ?case by (cases "row_pair r = ?p") (auto simp: filter_empty_conv image_iff)
  qed
  with one two show "\<exists>tr1 rows1.
         save_parking_data e d1 tr rows = (Inr (), tr1, rows1) \<and>
         save_parking_data e d2 tr1 rows1 = (Inr (), tr1 @ [Connect, Execute], rows1) \<and>
         length (filter (\<lambda>r. row_pair r = ?p) rows1) = 1"
    by blast
qed

subsection \<open>Runs in the concrete environments\<close>

lemma quiet_env_simps [simp]:
  "API_KEY (quiet_env server fs) = Some ''key''"
  "FACILITIES (quiet_env server fs) = fs"
  "http (quiet_env server fs) = server"
  "sigint (quiet_env server fs) t = False"
  "db_fault (quiet_env server fs) t = False"
  "now (quiet_env server fs) t = ''2024-05-01T08:00:00''"
  "affinity (quiet_env server fs) = integer_text_affinity"
  "key_missing (quiet_env server fs) = False"
  by (simp_all add: quiet_env_def key_missing_def)

lemma reading_parameters:
  "insert_parameters (reading fid) c =
     (if - (2 ^ 63) \<le> fid \<and> fid < 2 ^ 63
      then Inr ((reading_row fid)\<lparr>col_collected_at := SText c\<rparr>) else Inl OverflowError)"
  by (simp add: insert_parameters_def seq_def py_get_def bind_param_def reading_def
      reading_row_def)

lemma reading_row_simps [simp]:
  "(reading_row fid)\<lparr>col_collected_at := SText ''2024-05-01T08:00:00''\<rparr> = reading_row fid"
  "col_facility_id (reading_row fid) = SInt fid"
  "col_facility_name (reading_row fid) \<noteq> SNull"
  "col_message_date (reading_row fid) \<noteq> SNull"
  "row_pair (reading_row fid) = (SInt fid, SText ''2024-05-01T07:55:00'')"
  by (simp_all add: reading_row_def row_pair_def)

lemma row_pair_update [simp]:
  "row_pair (r\<lparr>col_collected_at := v\<rparr>) = row_pair r"
  "row_pair (r\<lparr>col_raw_response := j\<rparr>) = row_pair r"
  by (simp_all add: row_pair_def)

text \<open>The values of the row of a reading have the affinity of their columns already.\<close>

lemma stored_reading_row [simp]:
  "affinity e = integer_text_affinity \<Longrightarrow>
     stored e ((reading_row fid)\<lparr>col_collected_at := SText c\<rparr>) =
       (reading_row fid)\<lparr>col_collected_at := SText c\<rparr>"
  "affinity e = integer_text_affinity \<Longrightarrow> stored e (reading_row fid) = reading_row fid"
  by (simp_all add: stored_def integer_text_affinity_def reading_row_def)

lemma truthy_reading [simp]: "truthy (reading fid)"
  by (simp add: reading_def truthy_def)

lemma fetch_reading:
  "fetch_parking_data (quiet_env reading_server fs) fid retry_count tr =
     (Inr (Some (reading fid)), tr @ [Get fid])"
  by (subst fetch_parking_data.simps)
     (simp add: reading_server_def requests_get_def
        check_error_details_def seq_def py_in_def reading_def)

lemma save_reading_29:
  "save_parking_data (quiet_env server fs) (reading 29) tr [] =
     (Inr (), tr @ [Connect, Execute], [reading_row 29])"
  "save_parking_data (quiet_env server fs) (reading 29) tr [reading_row 29] =
     (Inr (), tr @ [Connect, Execute], [reading_row 29])"
  "save_parking_data (quiet_env server fs\<lparr>now := clk\<rparr>) (reading 29) tr [reading_row 29] =
     (Inr (), tr @ [Connect, Execute], [reading_row 29])"
  by (simp_all add: save_unfold reading_parameters)

lemma poll_reading_29:
  "poll_all_facilities (quiet_env reading_server [29]) [] [] =
     (Inr True, [Get 29, Connect, Execute], [reading_row 29])"
  "poll_all_facilities (quiet_env reading_server [29]\<lparr>now := clk\<rparr>) [] [reading_row 29] =
     (Inr True, [Get 29, Connect, Execute], [reading_row 29])"
  "poll_all_facilities (quiet_env reading_server [29]) [] [reading_row 29] =
     (Inr True, [Get 29, Connect, Execute], [reading_row 29])"
  by (simp_all add: poll_all_facilities_def fetch_reading save_if_data_def save_reading_29
      rate_limit_def)

text \<open>
  The conversion at work. The facility id \<^verbatim>\<open>"29"\<close>, a text, is stored as the integer
  29: over a store that holds the reading of facility 29 the reading with the text is a
  duplicate and is skipped, and over the empty store it is stored under the integer. A
  message date that arrives as a number is stored as its decimal text.
\<close>

lemma id_as_text_parameters:
  "insert_parameters reading_id_as_text c =
     Inr ((reading_row 29)\<lparr>col_facility_id := SText ''29'', col_collected_at := SText c,
            col_raw_response := reading_id_as_text\<rparr>)"
  by (simp add: insert_parameters_def seq_def py_get_def bind_param_def reading_id_as_text_def
      reading_row_def)

lemma stored_id_as_text:
  "affinity e = integer_text_affinity \<Longrightarrow>
     stored e ((reading_row 29)\<lparr>col_facility_id := SText ''29'', col_collected_at := SText c,
            col_raw_response := reading_id_as_text\<rparr>) =
       (reading_row 29)\<lparr>col_collected_at := SText c, col_raw_response := reading_id_as_text\<rparr>"
  by (simp add: stored_def integer_text_affinity_def reading_row_def integer_literal_def
      is_space_def digit_value_def)

lemma save_id_as_text:
  "save_parking_data (quiet_env server fs) reading_id_as_text tr [reading_row 29] =
     (Inr (), tr @ [Connect, Execute], [reading_row 29])"
  "save_parking_data (quiet_env server fs) reading_id_as_text tr [] =
     (Inr (), tr @ [Connect, Execute],
      [(reading_row 29)\<lparr>col_raw_response := reading_id_as_text\<rparr>])"
  by (simp_all add: save_unfold id_as_text_parameters stored_id_as_text)

lemma save_date_as_number:
  "save_parking_data (quiet_env server fs) reading_date_as_number tr [] =
     (Inr (), tr @ [Connect, Execute],
      [(reading_row 29)\<lparr>col_message_date := SText ''1714550100'',
         col_raw_response := reading_date_as_number\<rparr>])"
  by (simp add: save_unfold insert_parameters_def seq_def py_get_def bind_param_def
      reading_date_as_number_def stored_def integer_text_affinity_def reading_row_def
      row_pair_def decimal_def decimal_nat.simps)

theorem pair_stays_unique_witness:
  "distinct (map row_pair
     (snd (snd (save_parking_data (quiet_env reading_server [29]) (reading 29) [] [])))) \<and>
   (\<exists>tr1 rows1.
      save_parking_data (quiet_env reading_server [29]) (reading 29) [] [] =
        (Inr (), tr1, rows1) \<and>
      save_parking_data (quiet_env reading_server [29]) reading_id_as_text tr1 rows1 =
        (Inr (), tr1 @ [Connect, Execute], rows1) \<and>
      length (filter (\<lambda>r. row_pair r = row_pair (reading_row 29)) rows1) = 1) \<and>
   poll_all_facilities
     (quiet_env reading_server [29]\<lparr>now := (\<lambda>t. ''2024-05-01T08:10:00'')\<rparr>) []
     [reading_row 29] = (Inr True, [Get 29, Connect, Execute], [reading_row 29])"
  using pair_stays_unique [of "[]" "quiet_env reading_server [29]" "reading 29" "[]"
      "reading 29" "''2024-05-01T08:00:00''" "reading_row 29"
      reading_id_as_text "''2024-05-01T08:00:00''"
      "(reading_row 29)\<lparr>col_facility_id := SText ''29'',
         col_collected_at := SText ''2024-05-01T08:00:00'',
         col_raw_response := reading_id_as_text\<rparr>"
      "Inr True" "[Get 29, Connect, Execute]" "[reading_row 29]"
      "\<lambda>t. ''2024-05-01T08:10:00''"]
  by (simp add: poll_reading_29 reading_parameters id_as_text_parameters stored_id_as_text)

subsection \<open>Counting the events of a cycle\<close>

lemma two_power_ge_one: "(1::rat) \<le> 2 ^ k"
  by (rule one_le_power) simp

lemma two_power_le_32: "k < MAX_RETRIES \<Longrightarrow> (2::rat) ^ k \<le> 32"
  using power_increasing [of k 5 "2::rat"] by (simp add: MAX_RETRIES_def)

lemma not_fetch_event [simp]:
  "\<not> fetch_event fid Connect" "\<not> fetch_event fid Execute"
  "\<not> fetch_event fid (Sleep RATE_LIMIT_DELAY)"
  "\<not> fetch_event fid (Sleep POLL_INTERVAL_SECONDS)"
proof -
  show "\<not> fetch_event fid Connect" "\<not> fetch_event fid Execute"
    by (simp_all add: fetch_event_def)
  show "\<not> fetch_event fid (Sleep RATE_LIMIT_DELAY)"
  proof
    assume "fetch_event fid (Sleep RATE_LIMIT_DELAY)"
    then obtain k where "(2::rat) ^ k = 1 / 2"
      by (auto simp: fetch_event_def RATE_LIMIT_DELAY_def)
    with two_power_ge_one [of k] show False by simp
  qed
  show "\<not> fetch_event fid (Sleep POLL_INTERVAL_SECONDS)"
  proof
    assume "fetch_event fid (Sleep POLL_INTERVAL_SECONDS)"
    then obtain k where "k < MAX_RETRIES" "(2::rat) ^ k = 600"
      by (auto simp: fetch_event_def POLL_INTERVAL_SECONDS_def)
    with two_power_le_32 [of k] show False by simp
  qed
qed

lemma fetch_count:
  assumes "\<not> fetch_event fid ev"
  shows "count_list (snd (fetch_parking_data e fid retry_count tr)) ev = count_list tr ev"
proof -
  from fetch_events [of e fid retry_count tr] obtain evs
    where evs: "snd (fetch_parking_data e fid retry_count tr) = tr @ evs"
      "list_all (fetch_event fid) evs" by blast
  with assms have "ev \<notin> set evs" by (auto simp: list_all_iff)
  with evs show ?thesis by simp
qed

lemma save_count:
  "count_list (fst (snd (save_parking_data e data tr rows))) Connect =
     count_list tr Connect + 1"
  "count_list (fst (snd (save_parking_data e data tr rows))) (Sleep s) =
     count_list tr (Sleep s)"
  by (simp_all add: save_unfold split: sum.split)

lemma save_if_data_count:
  "count_list (fst (snd (save_if_data e data c tr rows))) Connect =
     count_list tr Connect + (case data of None \<Rightarrow> 0 | Some d \<Rightarrow> if truthy d then 1 else 0)"
  "count_list (fst (snd (save_if_data e data c tr rows))) (Sleep s) = count_list tr (Sleep s)"
  "fst (save_if_data e data c tr rows) = Inr c2 \<Longrightarrow>
     c2 = c + (case data of None \<Rightarrow> 0 | Some d \<Rightarrow> if truthy d then 1 else 0)"
proof -
  show "count_list (fst (snd (save_if_data e data c tr rows))) Connect =
     count_list tr Connect + (case data of None \<Rightarrow> 0 | Some d \<Rightarrow> if truthy d then 1 else 0)"
    using save_count(1) [of e "the data" tr rows]
    by (auto simp: save_if_data_def split: option.split prod.split sum.split)
  show "count_list (fst (snd (save_if_data e data c tr rows))) (Sleep s) =
      count_list tr (Sleep s)"
    using save_count(2) [of e "the data" tr rows s]
    by (auto simp: save_if_data_def split: option.split prod.split sum.split)
  show "fst (save_if_data e data c tr rows) = Inr c2 \<Longrightarrow>
     c2 = c + (case data of None \<Rightarrow> 0 | Some d \<Rightarrow> if truthy d then 1 else 0)"
    by (auto simp: save_if_data_def split: option.splits prod.splits sum.splits if_splits)
qed

lemma rate_limit_count [simp]:
  "count_list (snd (rate_limit e fid tr)) Connect = count_list tr Connect"
  by (simp add: rate_limit_def time_sleep_def split: list.split)

lemma poll_loop_count:
  assumes "poll_loop e fs c tr rows = (Inr c', tr', rows')"
  shows "c' + count_list tr Connect = c + count_list tr' Connect"
  using assms
proof (induction fs arbitrary: c tr rows)
  case Nil
  then show ?case by simp
next
  case (Cons fid rest)
  obtain r1 tr1 where f: "fetch_parking_data e fid 0 tr = (r1, tr1)"
    by (cases "fetch_parking_data e fid 0 tr")
  with fetch_count [of fid Connect e 0 tr]
  have c1: "count_list tr1 Connect = count_list tr Connect" by simp
  from f Cons.prems obtain data where data: "r1 = Inr data" by (cases r1) auto
  obtain r2 tr2 rows2 where s: "save_if_data e data c tr1 rows = (r2, tr2, rows2)"
    by (metis prod_cases3)
  with f data Cons.prems obtain c2 where c2: "r2 = Inr c2" by (cases r2) auto
  from s c2 save_if_data_count(1) [of e data c tr1 rows]
    save_if_data_count(3) [of e data c tr1 rows c2]
  have c3: "c2 + count_list tr1 Connect = c + count_list tr2 Connect" by simp
  obtain r3 tr3 where p: "rate_limit e fid tr2 = (r3, tr3)"
    by (cases "rate_limit e fid tr2")
  with rate_limit_count [of e fid tr2]
  have c4: "count_list tr3 Connect = count_list tr2 Connect" by simp
  from f data s c2 p Cons.prems
  have "poll_loop e rest c2 tr3 rows2 = (Inr c', tr', rows')" by (cases r3) auto
  from Cons.IH [OF this] c1 c3 c4 show ?case by simp
qed

subsection \<open>A cycle in which every fetch succeeds\<close>

lemma fetch_ok:
  assumes "\<not> key_missing e" "\<not> sigint e (length tr)"
    and "http e (length tr) fid = Response 200 (Json (JObj d))"
    and "map_of d ''ErrorDetails'' = None"
  shows "fetch_parking_data e fid retry_count tr = (Inr (Some (JObj d)), tr @ [Get fid])"
  using assms
  by (subst fetch_parking_data.simps)
     (simp add: requests_get_def check_error_details_def seq_def py_in_def)

lemma save_ok:
  assumes "insert_parameters data (now e (Suc (length tr))) = Inr r"
    and "\<not> db_fault e (Suc (length tr))"
  shows "\<exists>rows'. save_parking_data e data tr rows = (Inr (), tr @ [Connect, Execute], rows')"
  using assms by (simp add: save_unfold)

lemma rate_limit_ok:
  assumes "FACILITIES e \<noteq> []" and "\<not> sigint e (length tr)"
  shows "\<exists>tr'. rate_limit e fid tr = (Inr (), tr')"
  using assms by (cases "FACILITIES e") (simp_all add: rate_limit_def time_sleep_def)

lemma poll_loop_all_ok:
  assumes key: "\<not> key_missing e" and quiet: "\<forall>t. \<not> sigint e t"
    and sound: "\<forall>t. \<not> db_fault e t"
    and good: "\<forall>t. \<forall>fid\<in>set (FACILITIES e). \<exists>d.
        http e t fid = Response 200 (Json (JObj d)) \<and> d \<noteq> [] \<and>
        map_of d ''ErrorDetails'' = None \<and> (\<forall>c. \<exists>r. insert_parameters (JObj d) c = Inr r)"
    and sub: "set fs \<subseteq> set (FACILITIES e)"
  shows "\<exists>tr' rows'. poll_loop e fs c tr rows = (Inr (c + length fs), tr', rows')"
  using sub
proof (induction fs arbitrary: c tr rows)
  case Nil
  show ?case by simp
next
  case (Cons fid rest)
  then have mem: "fid \<in> set (FACILITIES e)" by simp
  with good obtain d where d: "http e (length tr) fid = Response 200 (Json (JObj d))"
    "d \<noteq> []" "map_of d ''ErrorDetails'' = None"
    "\<forall>c. \<exists>r. insert_parameters (JObj d) c = Inr r" by blast
  with key quiet
  have f: "fetch_parking_data e fid 0 tr = (Inr (Some (JObj d)), tr @ [Get fid])"
    by (intro fetch_ok) auto
  from d obtain r where "insert_parameters (JObj d) (now e (Suc (length (tr @ [Get fid])))) = Inr r"
    by blast
  with sound obtain rows2 where
    "save_parking_data e (JObj d) (tr @ [Get fid]) rows =
       (Inr (), tr @ [Get fid] @ [Connect, Execute], rows2)"
    using save_ok [of "JObj d" e "tr @ [Get fid]" r rows] by auto
  with d have s: "save_if_data e (Some (JObj d)) c (tr @ [Get fid]) rows =
      (Inr (c + 1), tr @ [Get fid] @ [Connect, Execute], rows2)"
    by (simp add: save_if_data_def truthy_def)
  from mem have "FACILITIES e \<noteq> []" by auto
  with quiet obtain tr3 where
    p: "rate_limit e fid (tr @ [Get fid] @ [Connect, Execute]) = (Inr (), tr3)"
    using rate_limit_ok [of e "tr @ [Get fid] @ [Connect, Execute]" fid] by auto
  from Cons.prems have "set rest \<subseteq> set (FACILITIES e)" by simp
  from Cons.IH [OF this, of "c + 1" tr3 rows2] f s p show ?case by simp
qed

subsection \<open>The payloads handed to the Persister\<close>

lemma handed_over_pass:
  assumes "fetch_parking_data e fid 0 tr = (Inr data, tr1)"
    and "save_if_data e data c tr1 rows = (Inr c2, tr2, rows2)"
    and "rate_limit e fid tr2 = (Inr u, tr3)"
  shows "handed_over e (fid # rest) c tr rows =
           (case data of None \<Rightarrow> [] | Some d \<Rightarrow> if truthy d then [d] else []) @
           handed_over e rest c2 tr3 rows2"
  using assms by (cases data) simp_all

lemma save_if_data_returns:
  assumes "save_if_data e (Some d) c tr rows = (Inr c2, tr2, rows2)"
    and "truthy d" and "storable e d"
  shows "\<exists>p. stored_pair e d = Some p \<and> p \<in> set (map row_pair rows2)"
proof -
  obtain r tr1 rows1 where s: "save_parking_data e d tr rows = (r, tr1, rows1)"
    by (metis prod_cases3)
  with assms(1,2) obtain u where "r = Inr u" "rows1 = rows2"
    by (cases r) (auto simp: save_if_data_def)
  with s save_returns [of e d tr rows u tr1 rows2] assms(3) show ?thesis by simp
qed

lemma poll_loop_handed:
  assumes "poll_loop e fs c tr rows = (Inr c', tr', rows')"
  shows "count_list tr' Connect = count_list tr Connect + length (handed_over e fs c tr rows) \<and>
         (\<forall>d\<in>set (handed_over e fs c tr rows). storable e d \<longrightarrow>
            (\<exists>p. stored_pair e d = Some p \<and> p \<in> set (map row_pair rows')))"
  using assms
proof (induction fs arbitrary: c tr rows)
  case Nil
  then show ?case by simp
next
  case (Cons fid rest)
  obtain r1 tr1 where f: "fetch_parking_data e fid 0 tr = (r1, tr1)"
    by (cases "fetch_parking_data e fid 0 tr")
  with fetch_count [of fid Connect e 0 tr]
  have c1: "count_list tr1 Connect = count_list tr Connect" by simp
  from f Cons.prems obtain data where data: "r1 = Inr data" by (cases r1) auto
  obtain r2 tr2 rows2 where s: "save_if_data e data c tr1 rows = (r2, tr2, rows2)"
    by (metis prod_cases3)
  with f data Cons.prems obtain c2 where c2: "r2 = Inr c2" by (cases r2) auto
  let ?now = "case data of None \<Rightarrow> [] | Some d \<Rightarrow> if truthy d then [d] else []"
  from s save_if_data_count(1) [of e data c tr1 rows]
  have c3: "count_list tr2 Connect = count_list tr1 Connect + length ?now"
    by (simp split: option.split)
  obtain r3 tr3 where p: "rate_limit e fid tr2 = (r3, tr3)"
    by (cases "rate_limit e fid tr2")
  with rate_limit_count [of e fid tr2]
  have c4: "count_list tr3 Connect = count_list tr2 Connect" by simp
  from f data s c2 p Cons.prems obtain u where u: "r3 = Inr u" by (cases r3) auto
  from f data s c2 p u Cons.prems
  have rest: "poll_loop e rest c2 tr3 rows2 = (Inr c', tr', rows')" by simp
  from f data s c2 p u
  have h: "handed_over e (fid # rest) c tr rows = ?now @ handed_over e rest c2 tr3 rows2"
    by (intro handed_over_pass) simp_all
  note ih = Cons.IH [OF rest]
  from poll_loop_mono [of rows2 e rest c2 tr3] rest
  have mono: "set (map row_pair rows2) \<subseteq> set (map row_pair rows')" by simp
  have first: "\<exists>p. stored_pair e d = Some p \<and> p \<in> set (map row_pair rows')"
    if "d \<in> set ?now" "storable e d" for d
  proof -
    from that(1) have d: "data = Some d" "truthy d"
      by (auto split: option.splits if_splits)
    with s c2 have "save_if_data e (Some d) c tr1 rows = (Inr c2, tr2, rows2)" by simp
    from save_if_data_returns [OF this d(2) that(2)] mono show ?thesis by blast
  qed
  show ?case
  proof (intro conjI ballI impI)
    from ih c1 c3 c4 h
    show "count_list tr' Connect =
        count_list tr Connect + length (handed_over e (fid # rest) c tr rows)"
      by simp
  next
    fix d
    assume "d \<in> set (handed_over e (fid # rest) c tr rows)" and st: "storable e d"
    with h have "d \<in> set ?now \<or> d \<in> set (handed_over e rest c2 tr3 rows2)" by simp
    then show "\<exists>p. stored_pair e d = Some p \<and> p \<in> set (map row_pair rows')"
    proof
      assume "d \<in> set ?now"
      from first [OF this st] show ?thesis .
    next
      assume "d \<in> set (handed_over e rest c2 tr3 rows2)"
      with ih st show ?thesis by blast
    qed
  qed
qed

lemma poll_loop_counter:
  assumes "poll_loop e fs c tr rows = (Inr c', tr', rows')"
  shows "c' = c + length (handed_over e fs c tr rows)"
  using poll_loop_count [OF assms] poll_loop_handed [OF assms] by simp

text \<open>
  A cycle over a payload without the facility id, which the Persister drops as if it were
  a duplicate, reports success over a store that stays empty. The statements on the
  result of a cycle below leave such payloads aside.
\<close>

lemma poll_true_for_dropped_reading:
  "poll_all_facilities (quiet_env (json_server reading_without_id) [29]) [] [] =
     (Inr True, [Get 29, Connect, Execute], [])"
proof -
  have "fetch_parking_data (quiet_env (json_server reading_without_id) [29]) 29 0 [] =
      (Inr (Some reading_without_id), [Get 29])"
    by (subst fetch_parking_data.simps)
       (simp add: json_server_def requests_get_def check_error_details_def seq_def py_in_def
          reading_without_id_def)
  moreover have "save_parking_data (quiet_env (json_server reading_without_id) [29])
      reading_without_id [Get 29] [] = (Inr (), [Get 29, Connect, Execute], [])"
    by (simp add: save_unfold insert_parameters_def seq_def py_get_def bind_param_def
        reading_without_id_def stored_def integer_text_affinity_def)
  moreover have "truthy reading_without_id"
    by (simp add: reading_without_id_def truthy_def)
  ultimately show ?thesis
    by (simp add: poll_all_facilities_def save_if_data_def rate_limit_def)
qed

text \<open>
  Claim C6, as stated, fails: over a store that already holds the reading, the cycle
  fetches the reading, the Persister skips it as a duplicate, and the cycle reports
  success although it has persisted nothing (the store is as it was).
\<close>

theorem poll_true_nothing_persisted:
  "poll_all_facilities (quiet_env reading_server [29]) [] [reading_row 29] =
     (Inr True, [Get 29, Connect, Execute], [reading_row 29]) \<and>
   \<not> (fst (poll_all_facilities (quiet_env reading_server [29]) [] [reading_row 29]) = Inr True
        \<longleftrightarrow> snd (snd (poll_all_facilities (quiet_env reading_server [29]) []
               [reading_row 29])) \<noteq> [reading_row 29])"
  by (simp add: poll_reading_29)

text \<open>
  Claim C6, amended. The loop over any list of facilities, from any state, if it returns,
  has called the Persister (opened the database connection) exactly once for each pass
  whose fetch returned data that is true for \<^verbatim>\<open>if data:\<close>, and in no other pass; and
  every such payload whose facility id, name and message date are stored as values other
  than \<^verbatim>\<open>NULL\<close> is in the store when the loop ends, under the pair the table stores
  it with: written in this cycle, or there already and skipped as a duplicate. A cycle
  that returns, returns true exactly if one of the payloads of that kind that it fetched
  is in the store when the cycle ends; the one exception, which this statement leaves
  aside, is the cycle that fetched payloads and none of that kind. If the key is set,
  nobody interrupts, the storage does not fail and every request for a configured
  facility is answered with status 200 and a non-empty dict without the error field that
  is of that kind, the cycle calls the Persister once per facility of the list and returns
  true if the list is not empty.
\<close>

theorem poll_success_counts_saves:
  "(poll_loop e fs c tr rows = (Inr c', tr', rows') \<longrightarrow>
      count_list tr' Connect =
        count_list tr Connect + length (handed_over e fs c tr rows) \<and>
      (\<forall>d\<in>set (handed_over e fs c tr rows). storable e d \<longrightarrow>
         (\<exists>p. stored_pair e d = Some p \<and> p \<in> set (map row_pair rows')))) \<and>
   (poll_all_facilities e tr rows = (Inr success, tr', rows') \<and>
    (handed_over e (FACILITIES e) 0 tr rows = [] \<or>
     (\<exists>d\<in>set (handed_over e (FACILITIES e) 0 tr rows). storable e d)) \<longrightarrow>
      success =
        (\<exists>d\<in>set (handed_over e (FACILITIES e) 0 tr rows).
           storable e d \<and>
           (\<exists>p. stored_pair e d = Some p \<and> p \<in> set (map row_pair rows')))) \<and>
   (\<not> key_missing e \<and> (\<forall>t. \<not> sigint e t) \<and> (\<forall>t. \<not> db_fault e t) \<and>
    (\<forall>t. \<forall>fid\<in>set (FACILITIES e). \<exists>d.
        http e t fid = Response 200 (Json (JObj d)) \<and> d \<noteq> [] \<and>
        map_of d ''ErrorDetails'' = None \<and> storable e (JObj d)) \<longrightarrow>
      (\<exists>tr' rows'.
         poll_all_facilities e tr rows = (Inr (FACILITIES e \<noteq> []), tr', rows') \<and>
         count_list tr' Connect = count_list tr Connect + length (FACILITIES e)))"
proof (intro conjI impI)
  assume "poll_loop e fs c tr rows = (Inr c', tr', rows')"
  from poll_loop_handed [OF this]
  show "count_list tr' Connect =
        count_list tr Connect + length (handed_over e fs c tr rows)"
    and "\<forall>d\<in>set (handed_over e fs c tr rows). storable e d \<longrightarrow>
         (\<exists>p. stored_pair e d = Some p \<and> p \<in> set (map row_pair rows'))"
    by simp_all
next
  let ?H = "handed_over e (FACILITIES e) 0 tr rows"
  assume a: "poll_all_facilities e tr rows = (Inr success, tr', rows') \<and>
    (?H = [] \<or> (\<exists>d\<in>set ?H. storable e d))"
  obtain r tr1 rows1 where l: "poll_loop e (FACILITIES e) 0 tr rows = (r, tr1, rows1)"
    by (metis prod_cases3)
  with a obtain n where n: "r = Inr n" "success = (0 < n)" "tr1 = tr'" "rows1 = rows'"
    by (cases r) (auto simp: poll_all_facilities_def)
  with l have loop: "poll_loop e (FACILITIES e) 0 tr rows = (Inr n, tr', rows')" by simp
  from poll_loop_counter [OF loop] n have success: "success = (?H \<noteq> [])" by simp
  from poll_loop_handed [OF loop]
  have kept: "\<forall>d\<in>set ?H. storable e d \<longrightarrow>
      (\<exists>p. stored_pair e d = Some p \<and> p \<in> set (map row_pair rows'))" by simp
  show "success =
      (\<exists>d\<in>set ?H. storable e d \<and>
         (\<exists>p. stored_pair e d = Some p \<and> p \<in> set (map row_pair rows')))"
  proof
    assume success
    with success a obtain d where "d \<in> set ?H" "storable e d" by auto
    with kept show "\<exists>d\<in>set ?H. storable e d \<and>
        (\<exists>p. stored_pair e d = Some p \<and> p \<in> set (map row_pair rows'))"
      by blast
  next
    assume "\<exists>d\<in>set ?H. storable e d \<and>
        (\<exists>p. stored_pair e d = Some p \<and> p \<in> set (map row_pair rows'))"
    with success show success by auto
  qed
next
  assume a: "\<not> key_missing e \<and> (\<forall>t. \<not> sigint e t) \<and> (\<forall>t. \<not> db_fault e t) \<and>
    (\<forall>t. \<forall>fid\<in>set (FACILITIES e). \<exists>d.
        http e t fid = Response 200 (Json (JObj d)) \<and> d \<noteq> [] \<and>
        map_of d ''ErrorDetails'' = None \<and> storable e (JObj d))"
  then have "\<forall>t. \<forall>fid\<in>set (FACILITIES e). \<exists>d.
        http e t fid = Response 200 (Json (JObj d)) \<and> d \<noteq> [] \<and>
        map_of d ''ErrorDetails'' = None \<and>
        (\<forall>c. \<exists>r. insert_parameters (JObj d) c = Inr r)"
    using storable_bound [of e] by meson
  with a obtain tr' rows' where
    l: "poll_loop e (FACILITIES e) 0 tr rows = (Inr (0 + length (FACILITIES e)), tr', rows')"
    using poll_loop_all_ok [of e "FACILITIES e" 0 tr rows] by blast
  with poll_loop_count [OF l]
  show "\<exists>tr' rows'.
         poll_all_facilities e tr rows = (Inr (FACILITIES e \<noteq> []), tr', rows') \<and>
         count_list tr' Connect = count_list tr Connect + length (FACILITIES e)"
    by (simp add: poll_all_facilities_def)
qed

subsection \<open>A cycle over the deployed list\<close>

lemma save_reading:
  assumes "- (2 ^ 63) \<le> fid" and "fid < 2 ^ 63"
  shows "save_parking_data (quiet_env server fs) (reading fid) tr rows =
     (Inr (), tr @ [Connect, Execute],
      if row_pair (reading_row fid) \<in> set (map row_pair rows) then rows
      else rows @ [reading_row fid])"
  using assms by (simp add: save_unfold reading_parameters)

lemma storable_reading:
  assumes "affinity e = integer_text_affinity" and "- (2 ^ 63) \<le> fid" and "fid < 2 ^ 63"
  shows "storable e (reading fid)"
    and "stored_pair e (reading fid) = Some (SInt fid, SText ''2024-05-01T07:55:00'')"
proof -
  from assms(2,3) have p: "insert_parameters (reading fid) [] =
      Inr ((reading_row fid)\<lparr>col_collected_at := SText []\<rparr>)"
    by (simp add: reading_parameters)
  from storable_eq [OF p, of e] assms(1) show "storable e (reading fid)" by simp
  from stored_pair_eq [OF p, of e] assms(1)
  show "stored_pair e (reading fid) = Some (SInt fid, SText ''2024-05-01T07:55:00'')" by simp
qed

lemma poll_loop_deployed:
  "poll_loop (quiet_env reading_server deployed_FACILITIES) deployed_FACILITIES 0 [] [] =
     (Inr 4,
      [Get 29, Connect, Execute, Sleep (1 / 2), Get 30, Connect, Execute, Sleep (1 / 2),
       Get 31, Connect, Execute, Sleep (1 / 2), Get 32, Connect, Execute],
      [reading_row 29, reading_row 30, reading_row 31, reading_row 32])"
  by (simp add: deployed_FACILITIES_def fetch_reading save_if_data_def
      save_reading rate_limit_def time_sleep_def RATE_LIMIT_DELAY_def)

lemma poll_deployed:
  "poll_all_facilities (quiet_env reading_server deployed_FACILITIES) [] [] =
     (Inr True,
      [Get 29, Connect, Execute, Sleep (1 / 2), Get 30, Connect, Execute, Sleep (1 / 2),
       Get 31, Connect, Execute, Sleep (1 / 2), Get 32, Connect, Execute],
      [reading_row 29, reading_row 30, reading_row 31, reading_row 32])"
  by (simp add: poll_all_facilities_def poll_loop_deployed)

lemma handed_over_deployed:
  "handed_over (quiet_env reading_server deployed_FACILITIES) deployed_FACILITIES 0 [] [] =
     [reading 29, reading 30, reading 31, reading 32]"
  by (simp add: deployed_FACILITIES_def fetch_reading save_if_data_def
      save_reading rate_limit_def time_sleep_def RATE_LIMIT_DELAY_def)

theorem poll_success_counts_saves_witness:
  "handed_over (quiet_env reading_server deployed_FACILITIES) deployed_FACILITIES 0 [] [] =
     [reading 29, reading 30, reading 31, reading 32] \<and>
   count_list (fst (snd (poll_all_facilities
       (quiet_env reading_server deployed_FACILITIES) [] []))) Connect = 4 \<and>
   (\<exists>p. stored_pair (quiet_env reading_server deployed_FACILITIES) (reading 30) = Some p \<and>
      p \<in> set (map row_pair (snd (snd (poll_all_facilities
             (quiet_env reading_server deployed_FACILITIES) [] []))))) \<and>
   fst (poll_all_facilities (quiet_env reading_server deployed_FACILITIES) [] []) =
     Inr (\<exists>d\<in>set [reading 29, reading 30, reading 31, reading 32].
            storable (quiet_env reading_server deployed_FACILITIES) d \<and>
            (\<exists>p. stored_pair (quiet_env reading_server deployed_FACILITIES) d = Some p \<and>
               p \<in> set (map row_pair
                 [reading_row 29, reading_row 30, reading_row 31, reading_row 32]))) \<and>
   (\<exists>tr' rows'.
      poll_all_facilities (quiet_env reading_server deployed_FACILITIES) [] [] =
        (Inr (deployed_FACILITIES \<noteq> []), tr', rows') \<and>
      count_list tr' Connect = count_list [] Connect + length deployed_FACILITIES)"
proof -
  let ?e = "quiet_env reading_server deployed_FACILITIES"
  let ?tr = "[Get 29, Connect, Execute, Sleep (1 / 2), Get 30, Connect, Execute,
      Sleep (1 / 2), Get 31, Connect, Execute, Sleep (1 / 2), Get 32, Connect, Execute]"
  let ?rows = "[reading_row 29, reading_row 30, reading_row 31, reading_row 32]"
  let ?H = "[reading 29, reading 30, reading 31, reading 32]"
  note t = poll_success_counts_saves [where e = ?e and fs = deployed_FACILITIES and c = 0
      and tr = "[]" and rows = "[]" and c' = 4 and tr' = ?tr and rows' = ?rows
      and success = True]
  have st: "\<forall>d\<in>set ?H. storable ?e d"
    by (simp add: storable_reading)
  have answer: "\<exists>d. reading_server t fid = Response 200 (Json (JObj d)) \<and> d \<noteq> [] \<and>
      map_of d ''ErrorDetails'' = None \<and> storable ?e (JObj d)"
    if "fid \<in> set deployed_FACILITIES" for t fid
  proof -
    from that have "storable ?e (reading fid)"
      by (intro storable_reading) (auto simp: deployed_FACILITIES_def)
    then show ?thesis by (simp add: reading_server_def reading_def)
  qed
  then have good: "\<not> key_missing ?e \<and> (\<forall>t. \<not> sigint ?e t) \<and> (\<forall>t. \<not> db_fault ?e t) \<and>
      (\<forall>t. \<forall>fid\<in>set (FACILITIES ?e). \<exists>d.
          http ?e t fid = Response 200 (Json (JObj d)) \<and> d \<noteq> [] \<and>
          map_of d ''ErrorDetails'' = None \<and> storable ?e (JObj d))"
    by simp
  note loop = mp [OF t [THEN conjunct1] poll_loop_deployed]
  from loop have one: "count_list ?tr Connect = 4"
    unfolding handed_over_deployed by simp
  from loop have "\<forall>d\<in>set ?H. storable ?e d \<longrightarrow>
      (\<exists>p. stored_pair ?e d = Some p \<and> p \<in> set (map row_pair ?rows))"
    unfolding handed_over_deployed by (rule conjunct2)
  moreover have "reading 30 \<in> set ?H" by simp
  moreover have "storable ?e (reading 30)" by (simp add: storable_reading)
  ultimately
  have kept: "\<exists>p. stored_pair ?e (reading 30) = Some p \<and> p \<in> set (map row_pair ?rows)"
    by blast
  from st have some: "?H = [] \<or> (\<exists>d\<in>set ?H. storable ?e d)" by simp
  have two: "True =
      (\<exists>d\<in>set ?H. storable ?e d \<and>
         (\<exists>p. stored_pair ?e d = Some p \<and> p \<in> set (map row_pair ?rows)))"
    using t [THEN conjunct2, THEN conjunct1]
    unfolding quiet_env_simps handed_over_deployed
    using conjI [OF poll_deployed some] by (rule mp)
  have three: "\<exists>tr' rows'. poll_all_facilities ?e [] [] =
        (Inr (deployed_FACILITIES \<noteq> []), tr', rows') \<and>
      count_list tr' Connect = count_list [] Connect + length deployed_FACILITIES"
    using mp [OF t [THEN conjunct2, THEN conjunct2] good]
    by (simp only: quiet_env_simps)
  have four: "fst (poll_all_facilities ?e [] []) =
      Inr (\<exists>d\<in>set ?H. storable ?e d \<and>
         (\<exists>p. stored_pair ?e d = Some p \<and> p \<in> set (map row_pair ?rows)))"
    unfolding two [symmetric] poll_deployed by (simp only: fst_conv)
  from one have five: "count_list (fst (snd (poll_all_facilities ?e [] []))) Connect = 4"
    unfolding poll_deployed by (simp only: fst_conv snd_conv)
  from kept have six: "\<exists>p. stored_pair ?e (reading 30) = Some p \<and>
      p \<in> set (map row_pair (snd (snd (poll_all_facilities ?e [] []))))"
    unfolding poll_deployed by (simp only: fst_conv snd_conv)
  from handed_over_deployed five six four three show ?thesis
    by (intro conjI)
qed

subsection \<open>The pacing of a cycle\<close>

lemma remdups_adj_run:
  assumes "remdups_adj ys = z # zs" and "x \<noteq> z"
  shows "remdups_adj (replicate (Suc n) x @ ys) = x # z # zs"
proof (induction n)
  case 0
  from assms show ?case by (simp add: remdups_adj_Cons)
next
  case (Suc n)
  have "remdups_adj (replicate (Suc (Suc n)) x @ ys) =
        remdups_adj (x # (replicate (Suc n) x @ ys))" by simp
  also have "\<dots> = x # z # zs"
    by (subst remdups_adj_Cons) (simp only: Suc list.case simp_thms if_True)
  finally show ?case .
qed

lemma pacing_view_fetch:
  assumes "list_all (fetch_event fid) evs"
  shows "filter pacing_view evs = replicate (length (filter pacing_view evs)) (Get fid)"
proof -
  have "\<forall>ev\<in>set (filter pacing_view evs). ev = Get fid"
  proof
    fix ev assume "ev \<in> set (filter pacing_view evs)"
    with assms have ev: "fetch_event fid ev" "pacing_view ev" by (auto simp: list_all_iff)
    from ev(2) consider "is_Get ev" | "ev = Sleep RATE_LIMIT_DELAY"
      by (auto simp: pacing_view_def)
    then show "ev = Get fid"
    proof cases
      case 1
      with ev(1) show ?thesis by (auto simp: fetch_event_def)
    next
      case 2
      with ev(1) not_fetch_event(3) [of fid] show ?thesis by simp
    qed
  qed
  then show ?thesis by (simp add: replicate_length_same)
qed

lemma save_events:
  "fst (snd (save_parking_data e d tr rows)) = tr @ [Connect] \<or>
   fst (snd (save_parking_data e d tr rows)) = tr @ [Connect, Execute]"
proof (cases "insert_parameters d (now e (Suc (length tr)))")
  case (Inl x)
  then show ?thesis by (simp add: save_unfold)
next
  case (Inr r)
  then show ?thesis by (simp add: save_unfold)
qed

lemma save_if_data_events:
  "\<exists>evs. fst (snd (save_if_data e data c tr rows)) = tr @ evs \<and>
         set evs \<subseteq> {Connect, Execute}"
proof (cases data)
  case None
  then have "fst (snd (save_if_data e data c tr rows)) = tr @ []"
    by (simp add: save_if_data_def)
  then show ?thesis by (intro exI [of _ "[]"]) simp
next
  case (Some d)
  show ?thesis
  proof (cases "truthy d")
    case False
    with Some have "fst (snd (save_if_data e data c tr rows)) = tr @ []"
      by (simp add: save_if_data_def)
    then show ?thesis by (intro exI [of _ "[]"]) simp
  next
    case True
    obtain r tr1 rows1 where s: "save_parking_data e d tr rows = (r, tr1, rows1)"
      using prod_cases3 by blast
    with Some True have eq: "fst (snd (save_if_data e data c tr rows)) = tr1"
      by (cases r) (simp_all add: save_if_data_def)
    from save_events [of e d tr rows] s
    consider "tr1 = tr @ [Connect]" | "tr1 = tr @ [Connect, Execute]" by auto
    then show ?thesis
    proof cases
      case 1
      with eq show ?thesis by (intro exI [of _ "[Connect]"]) simp
    next
      case 2
      with eq show ?thesis by (intro exI [of _ "[Connect, Execute]"]) simp
    qed
  qed
qed

lemma rate_limit_returns:
  assumes "rate_limit e fid tr = (Inr u, tr')"
  shows "FACILITIES e \<noteq> [] \<and>
         tr' = tr @ (if fid \<noteq> last (FACILITIES e) then [Sleep RATE_LIMIT_DELAY] else [])"
  using assms
  by (cases "FACILITIES e") (auto simp: rate_limit_def time_sleep_def split: if_splits)

lemma paced_Cons:
  "rest \<noteq> [] \<Longrightarrow> paced (fid # rest) = Get fid # Sleep RATE_LIMIT_DELAY # paced rest"
  by (cases rest) simp_all

lemma paced_head: "rest \<noteq> [] \<Longrightarrow> \<exists>zs. paced rest = Get (hd rest) # zs"
  by (cases rest rule: paced.cases) simp_all

lemma poll_loop_paced:
  assumes key: "\<not> key_missing e"
    and "last fs \<notin> set (butlast fs)" and "fs \<noteq> [] \<longrightarrow> last fs = last (FACILITIES e)"
    and "poll_loop e fs c tr rows = (Inr c', tr', rows')"
  shows "\<exists>evs. tr' = tr @ evs \<and>
           count_list evs (Sleep RATE_LIMIT_DELAY) = length fs - 1 \<and>
           remdups_adj (filter pacing_view evs) = paced fs"
  using assms(2-)
proof (induction fs arbitrary: c tr rows)
  case Nil
  then show ?case by simp
next
  case (Cons fid rest)
  obtain r1 tr1 where f: "fetch_parking_data e fid 0 tr = (r1, tr1)"
    by (cases "fetch_parking_data e fid 0 tr")
  with Cons.prems(3) obtain data where data: "r1 = Inr data" by (cases r1) auto
  from fetch_events [of e fid 0 tr] f data key obtain evs1
    where evs1: "tr1 = tr @ evs1" "list_all (fetch_event fid) evs1" "Get fid \<in> set evs1"
    by auto
  obtain n where view1: "filter pacing_view evs1 = replicate (Suc n) (Get fid)"
  proof -
    have "pacing_view (Get fid)" by (simp add: pacing_view_def)
    with evs1(3) have "filter pacing_view evs1 \<noteq> []"
      unfolding filter_empty_conv by blast
    then obtain n where "length (filter pacing_view evs1) = Suc n"
      by (cases "filter pacing_view evs1") auto
    with pacing_view_fetch [OF evs1(2)] that show ?thesis by simp
  qed
  from evs1(2) have count1: "count_list evs1 (Sleep RATE_LIMIT_DELAY) = 0"
    using not_fetch_event(3) [of fid] by (auto simp: list_all_iff count_list_0_iff)
  obtain r2 tr2 rows2 where s: "save_if_data e data c tr1 rows = (r2, tr2, rows2)"
    by (metis prod_cases3)
  with f data Cons.prems(3) obtain c2 where c2: "r2 = Inr c2" by (cases r2) auto
  from save_if_data_events [of e data c tr1 rows] s obtain evs2
    where evs2: "tr2 = tr1 @ evs2" "set evs2 \<subseteq> {Connect, Execute}" by auto
  then have view2: "filter pacing_view evs2 = []"
    and count2: "count_list evs2 (Sleep RATE_LIMIT_DELAY) = 0"
    by (auto simp: filter_empty_conv pacing_view_def count_list_0_iff)
  obtain r3 tr3 where p: "rate_limit e fid tr2 = (r3, tr3)"
    by (cases "rate_limit e fid tr2")
  with f data s c2 Cons.prems(3) obtain u where u: "r3 = Inr u" by (cases r3) auto
  from rate_limit_returns [of e fid tr2 u tr3] p u
  have tr3: "tr3 = tr2 @ (if fid \<noteq> last (FACILITIES e) then [Sleep RATE_LIMIT_DELAY] else [])"
    by simp
  from f data s c2 p u Cons.prems(3)
  have rest: "poll_loop e rest c2 tr3 rows2 = (Inr c', tr', rows')" by simp
  show ?case
  proof (cases "rest = []")
    case True
    with Cons.prems(2) have "fid = last (FACILITIES e)" by simp
    with tr3 rest True evs1 evs2 have "tr' = tr @ (evs1 @ evs2)" by simp
    moreover have "count_list (evs1 @ evs2) (Sleep RATE_LIMIT_DELAY) = length (fid # rest) - 1"
      using count1 count2 True by simp
    moreover have "remdups_adj (filter pacing_view (evs1 @ evs2)) = paced (fid # rest)"
      by (simp add: view1 view2 True remdups_adj_replicate del: replicate.simps)
    ultimately show ?thesis by blast
  next
    case False
    with Cons.prems(1,2)
    have last: "last rest = last (FACILITIES e)" "fid \<noteq> last rest"
      by auto
    from Cons.prems(1) False last(1)
    have "last rest \<notin> set (butlast rest)" "rest \<noteq> [] \<longrightarrow> last rest = last (FACILITIES e)"
      by simp_all
    from Cons.IH [OF this rest] obtain evs4 where evs4: "tr' = tr3 @ evs4"
      "count_list evs4 (Sleep RATE_LIMIT_DELAY) = length rest - 1"
      "remdups_adj (filter pacing_view evs4) = paced rest" by blast
    from paced_head [OF False] evs4(3) obtain zs
      where zs: "remdups_adj (filter pacing_view evs4) = Get (hd rest) # zs" by auto
    have "remdups_adj (Sleep RATE_LIMIT_DELAY # filter pacing_view evs4) =
        Sleep RATE_LIMIT_DELAY # paced rest"
      using zs evs4(3) by (simp add: remdups_adj_Cons)
    then have view: "remdups_adj (replicate (Suc n) (Get fid) @
        Sleep RATE_LIMIT_DELAY # filter pacing_view evs4) =
        Get fid # Sleep RATE_LIMIT_DELAY # paced rest"
      by (intro remdups_adj_run) simp_all
    let ?evs = "evs1 @ evs2 @ [Sleep RATE_LIMIT_DELAY] @ evs4"
    from tr3 last evs1 evs2 evs4 have "tr' = tr @ ?evs" by simp
    moreover have "count_list ?evs (Sleep RATE_LIMIT_DELAY) = length (fid # rest) - 1"
      using count1 count2 evs4(2) False by (cases rest) simp_all
    moreover have "remdups_adj (filter pacing_view ?evs) = paced (fid # rest)"
    proof -
      have "pacing_view (Sleep RATE_LIMIT_DELAY)" by (simp add: pacing_view_def)
      then have "filter pacing_view ?evs =
          replicate (Suc n) (Get fid) @ Sleep RATE_LIMIT_DELAY # filter pacing_view evs4"
        by (simp add: view1 view2 del: replicate.simps)
      with view False show ?thesis by (simp add: paced_Cons del: replicate.simps)
    qed
    ultimately show ?thesis by blast
  qed
qed

text \<open>
  The pacing sleeps of a cycle, for every list: one after each pass for a facility other
  than the one the list ends with. These are all passes but the last exactly if the last
  facility of the list does not occur earlier in it.
\<close>

lemma poll_loop_sleeps:
  assumes "poll_loop e fs c tr rows = (Inr c', tr', rows')"
  shows "count_list tr' (Sleep RATE_LIMIT_DELAY) =
           count_list tr (Sleep RATE_LIMIT_DELAY) +
             length (filter (\<lambda>f. f \<noteq> last (FACILITIES e)) fs)"
  using assms
proof (induction fs arbitrary: c tr rows)
  case Nil
  then show ?case by simp
next
  case (Cons fid rest)
  let ?s = "Sleep RATE_LIMIT_DELAY"
  obtain r1 tr1 where f: "fetch_parking_data e fid 0 tr = (r1, tr1)"
    by (cases "fetch_parking_data e fid 0 tr")
  with fetch_count [of fid ?s e 0 tr]
  have c1: "count_list tr1 ?s = count_list tr ?s" by simp
  from f Cons.prems obtain data where data: "r1 = Inr data" by (cases r1) auto
  obtain r2 tr2 rows2 where s: "save_if_data e data c tr1 rows = (r2, tr2, rows2)"
    by (metis prod_cases3)
  with f data Cons.prems obtain c2 where c2: "r2 = Inr c2" by (cases r2) auto
  from s save_if_data_count(2) [of e data c tr1 rows RATE_LIMIT_DELAY]
  have c3: "count_list tr2 ?s = count_list tr1 ?s" by simp
  obtain r3 tr3 where p: "rate_limit e fid tr2 = (r3, tr3)"
    by (cases "rate_limit e fid tr2")
  with f data s c2 Cons.prems obtain u where u: "r3 = Inr u" by (cases r3) auto
  from rate_limit_returns [of e fid tr2 u tr3] p u
  have c4: "count_list tr3 ?s =
      count_list tr2 ?s + (if fid \<noteq> last (FACILITIES e) then 1 else 0)"
    by simp
  from f data s c2 p u Cons.prems
  have "poll_loop e rest c2 tr3 rows2 = (Inr c', tr', rows')" by simp
  from Cons.IH [OF this] c1 c3 c4 show ?case by simp
qed

lemma filter_not_last:
  assumes "last fs \<notin> set (butlast fs)"
  shows "length (filter (\<lambda>f. f \<noteq> last fs) fs) = length fs - 1"
proof (cases "fs = []")
  case True
  then show ?thesis by simp
next
  case False
  then have "fs = butlast fs @ [last fs]" by simp
  then have "filter (\<lambda>f. f \<noteq> last fs) fs =
      filter (\<lambda>f. f \<noteq> last fs) (butlast fs) @ filter (\<lambda>f. f \<noteq> last fs) [last fs]"
    by (metis filter_append)
  also from assms have "filter (\<lambda>f. f \<noteq> last fs) (butlast fs) = butlast fs"
    by (auto simp: filter_id_conv)
  finally show ?thesis by simp
qed

lemma poll_pacing_sleeps:
  assumes "poll_all_facilities e tr rows = (Inr success, tr', rows')"
  shows "count_list tr' (Sleep RATE_LIMIT_DELAY) =
           count_list tr (Sleep RATE_LIMIT_DELAY) +
             length (filter (\<lambda>f. f \<noteq> last (FACILITIES e)) (FACILITIES e))"
    and "last (FACILITIES e) \<notin> set (butlast (FACILITIES e)) \<Longrightarrow>
         count_list tr' (Sleep RATE_LIMIT_DELAY) =
           count_list tr (Sleep RATE_LIMIT_DELAY) + (length (FACILITIES e) - 1)"
proof -
  obtain r tr1 rows1 where l: "poll_loop e (FACILITIES e) 0 tr rows = (r, tr1, rows1)"
    by (metis prod_cases3)
  with assms obtain n where "r = Inr n" "tr1 = tr'" "rows1 = rows'"
    by (cases r) (auto simp: poll_all_facilities_def)
  with l have "poll_loop e (FACILITIES e) 0 tr rows = (Inr n, tr', rows')" by simp
  from poll_loop_sleeps [OF this]
  show *: "count_list tr' (Sleep RATE_LIMIT_DELAY) =
           count_list tr (Sleep RATE_LIMIT_DELAY) +
             length (filter (\<lambda>f. f \<noteq> last (FACILITIES e)) (FACILITIES e))" .
  assume "last (FACILITIES e) \<notin> set (butlast (FACILITIES e))"
  from filter_not_last [OF this] *
  show "count_list tr' (Sleep RATE_LIMIT_DELAY) =
           count_list tr (Sleep RATE_LIMIT_DELAY) + (length (FACILITIES e) - 1)"
    by simp
qed

text \<open>
  With the key set (a fetch without the key makes no request), the requests and pacing
  sleeps of such a cycle, the repeated requests of a retried fetch taken as one, are: a
  request per facility in the order of the list, and one pacing sleep after each facility
  but the last. The deployed list is such a list.
\<close>

lemma poll_paced:
  assumes "last (FACILITIES e) \<notin> set (butlast (FACILITIES e))" and "\<not> key_missing e"
    and "poll_all_facilities e tr rows = (Inr success, tr', rows')"
  shows "\<exists>evs. tr' = tr @ evs \<and>
            remdups_adj (filter pacing_view evs) = paced (FACILITIES e)"
proof -
  obtain r tr1 rows1 where l: "poll_loop e (FACILITIES e) 0 tr rows = (r, tr1, rows1)"
    by (metis prod_cases3)
  with assms(3) obtain n where "r = Inr n" "tr1 = tr'" "rows1 = rows'"
    by (cases r) (auto simp: poll_all_facilities_def)
  with l have "poll_loop e (FACILITIES e) 0 tr rows = (Inr n, tr', rows')" by simp
  from poll_loop_paced [OF assms(2,1) _ this] obtain evs where "tr' = tr @ evs"
    "remdups_adj (filter pacing_view evs) = paced (FACILITIES e)" by blast
  then show ?thesis by auto
qed

lemma poll_paced_deployed:
  "count_list
     [Get 29, Connect, Execute, Sleep (1 / 2), Get 30, Connect, Execute, Sleep (1 / 2),
      Get 31, Connect, Execute, Sleep (1 / 2), Get 32, Connect, Execute]
     (Sleep RATE_LIMIT_DELAY) = 3 \<and>
   (\<exists>evs. [Get 29, Connect, Execute, Sleep (1 / 2), Get 30, Connect, Execute, Sleep (1 / 2),
           Get 31, Connect, Execute, Sleep (1 / 2), Get 32, Connect, Execute] = [] @ evs \<and>
      remdups_adj (filter pacing_view evs) =
        [Get 29, Sleep RATE_LIMIT_DELAY, Get 30, Sleep RATE_LIMIT_DELAY, Get 31,
         Sleep RATE_LIMIT_DELAY, Get 32])"
  using poll_paced [OF _ _ poll_deployed] poll_pacing_sleeps(2) [OF poll_deployed]
  by (simp add: deployed_FACILITIES_def)

text \<open>
  Claim C7 fails for a list that names its last facility twice. Line 201 takes a pass for
  the last one if its facility id equals the last element of the list, where its comments
  say that the sleep is made between the requests and not after the last request. In the
  list 29, 30, 29 the first pass polls the facility that the list ends with, so no pacing
  sleep follows it: the cycle makes one pacing sleep between its three requests, not two,
  and its requests and pacing sleeps are not a request per facility with a sleep after
  each but the last.
\<close>

theorem poll_repeated_facility_unpaced:
  "poll_all_facilities (quiet_env (status_server 404) [29, 30, 29]) [] [] =
     (Inr False, [Get 29, Get 30, Sleep RATE_LIMIT_DELAY, Get 29], []) \<and>
   count_list
     (fst (snd (poll_all_facilities (quiet_env (status_server 404) [29, 30, 29]) [] [])))
     (Sleep RATE_LIMIT_DELAY) \<noteq>
     length (FACILITIES (quiet_env (status_server 404) [29, 30, 29])) - 1 \<and>
   remdups_adj (filter pacing_view
     (fst (snd (poll_all_facilities (quiet_env (status_server 404) [29, 30, 29]) [] [])))) \<noteq>
     paced (FACILITIES (quiet_env (status_server 404) [29, 30, 29]))"
proof -
  have "fetch_parking_data (quiet_env (status_server 404) fs) fid 0 tr =
      (Inr None, tr @ [Get fid])" for fs fid tr
    by (subst fetch_parking_data.simps)
       (simp add: requests_get_def status_server_def FATAL_STATUS_CODES_def)
  then have "poll_all_facilities (quiet_env (status_server 404) [29, 30, 29]) [] [] =
     (Inr False, [Get 29, Get 30, Sleep RATE_LIMIT_DELAY, Get 29], [])"
    by (simp add: poll_all_facilities_def save_if_data_def rate_limit_def time_sleep_def)
  then show ?thesis by (simp add: pacing_view_def)
qed

section \<open>Properties of the Supervisor Loop\<close>

subsection \<open>One pass of the loop\<close>





text \<open>The operator's interrupt, in each place where a pass of the loop can receive it.\<close>

lemma interrupt_in_cycle:
  assumes "poll_all_facilities e tr rows = (Inl KeyboardInterrupt, tr1, rows1)"
  shows "main_iteration e n tr rows = (Inl (Exit 0), tr1, rows1)"
  using assms by (simp add: main_iteration_def handlers_def)

lemma interrupt_in_interval_sleep:
  assumes "poll_all_facilities e tr rows = (Inr success, tr1, rows1)"
    and "success \<or> n + 1 < MAX_CONSECUTIVE_FAILURES" and "sigint e (length tr1)"
  shows "main_iteration e n tr rows = (Inl (Exit 0), tr1 @ [Interrupted], rows1)"
  using assms by (auto simp: main_iteration_def handlers_def time_sleep_def)

lemma interrupt_in_handler_sleep:
  assumes "poll_all_facilities e tr rows = (Inl x, tr1, rows1)" and "x \<noteq> KeyboardInterrupt"
    and "n + 1 < MAX_CONSECUTIVE_FAILURES" and "sigint e (length tr1)"
  shows "main_iteration e n tr rows =
           (Inl (Uncaught KeyboardInterrupt), tr1 @ [Interrupted], rows1)"
  using assms by (simp add: main_iteration_def handlers_def time_sleep_def)

subsection \<open>A world in which every fetch fails\<close>





subsection \<open>The consecutive-failure counter\<close>





subsection \<open>The operator's interrupt\<close>

text \<open>
  Claim C9. In the environment \<open>fault_then_interrupt\<close> the first cycle raises
  \<^verbatim>\<open>OperationalError\<close> when the first reading is stored; the loop counts one failure and
  sleeps for the poll interval inside the handler of \<^verbatim>\<open>Exception\<close> (line 256); the
  operator's interrupt arrives during that sleep, where the handler of
  \<^verbatim>\<open>KeyboardInterrupt\<close> of the same \<^verbatim>\<open>try\<close> statement does not apply. The process
  ends with the uncaught interrupt, not with exit status 0.
\<close>

theorem interrupt_in_handler_uncaught:
  "poll_all_facilities fault_then_interrupt [] [] =
     (Inl OperationalError, [Get 29, Connect, Execute], []) \<and>
   main 1 fault_then_interrupt [] [] =
     Some (Uncaught KeyboardInterrupt, [Get 29, Connect, Execute, Interrupted], [])"
proof -
  have f: "fetch_parking_data fault_then_interrupt 29 0 [] = (Inr (Some (reading 29)), [Get 29])"
    by (subst fetch_parking_data.simps)
       (simp add: fault_then_interrupt_def key_missing_def requests_get_def reading_server_def
          check_error_details_def seq_def py_in_def reading_def quiet_env_def)
  have s: "save_parking_data fault_then_interrupt (reading 29) [Get 29] [] =
      (Inl OperationalError, [Get 29, Connect, Execute], [])"
    by (simp add: save_unfold reading_parameters fault_then_interrupt_def)
  from f s have p: "poll_all_facilities fault_then_interrupt [] [] =
     (Inl OperationalError, [Get 29, Connect, Execute], [])"
    by (simp add: poll_all_facilities_def save_if_data_def fault_then_interrupt_def
        deployed_FACILITIES_def)
  have "sigint fault_then_interrupt (length [Get 29, Connect, Execute])"
    by (simp add: fault_then_interrupt_def)
  then have "main_iteration fault_then_interrupt 0 [] [] =
      (Inl (Uncaught KeyboardInterrupt), [Get 29, Connect, Execute] @ [Interrupted], [])"
    using interrupt_in_handler_sleep [OF p, of 0]
    by (simp add: MAX_CONSECUTIVE_FAILURES_def)
  moreover have "\<not> key_missing fault_then_interrupt"
    by (simp add: fault_then_interrupt_def key_missing_def quiet_env_def)
  ultimately have "main 1 fault_then_interrupt [] [] =
     Some (Uncaught KeyboardInterrupt, [Get 29, Connect, Execute, Interrupted], [])"
    by (simp add: main_def)
  with p show ?thesis by simp
qed

end
